theory Spec2Isabelle
  imports Main
begin

section \<open>Python values: strings, integers, errors\<close>

text \<open>
  The mock authentication server (\<^verbatim>\<open>docker/mock-api/app.py\<close>) is embedded function by
  function. Python strings are lists of characters with code points below 256; an absent
  JSON field or header, Python's \<^verbatim>\<open>None\<close>, is \<open>None\<close> of an option type. Exceptions
  are values of \<open>py_error\<close>, returned on the left of a sum.
\<close>

datatype py_error = ValueError | ResponseError | AttributeError

type_synonym 'a result = "py_error + 'a"

text \<open>
  The characters \<^verbatim>\<open>str.isspace\<close> accepts, among the code points below 256: the ASCII
  white space, the separators 28 to 31, NEL (133) and the no-break space (160).
\<close>

definition is_space :: "char \<Rightarrow> bool" where
  "is_space c = (of_char c \<in> set [9, 10, 11, 12, 13, 28, 29, 30, 31, 32, 133, 160 :: nat])"

definition py_strip :: "string \<Rightarrow> string" where
  "py_strip s = rev (dropWhile is_space (rev (dropWhile is_space s)))"

text \<open>
  \<^verbatim>\<open>str.lower\<close> on code points below 256: the letters A to Z, and the capital letters
  from 192 to 222 but for the multiplication sign (215), move up by 32.
\<close>

definition lower_char :: "char \<Rightarrow> char" where
  "lower_char c =
     (let n = (of_char c :: nat)
      in if (65 \<le> n \<and> n \<le> 90) \<or> (192 \<le> n \<and> n \<le> 222 \<and> n \<noteq> 215)
         then char_of (n + 32) else c)"

definition py_lower :: "string \<Rightarrow> string" where
  "py_lower s = map lower_char s"

definition startswith :: "string \<Rightarrow> string \<Rightarrow> bool" where
  "startswith s p = (take (length p) s = p)"

text \<open>Truthiness of an optional string: \<^verbatim>\<open>None\<close> and the empty string are false.\<close>

definition truthy :: "string option \<Rightarrow> bool" where
  "truthy x = (case x of None \<Rightarrow> False | Some s \<Rightarrow> s \<noteq> [])"

text \<open>\<^verbatim>\<open>str(n)\<close> for an integer: decimal digits, a minus sign for a negative number.\<close>

definition digit_char :: "nat \<Rightarrow> char" where
  "digit_char d = char_of (48 + d)"

fun str_of_nat :: "nat \<Rightarrow> string" where
  "str_of_nat n =
     (if n < 10 then [digit_char n] else str_of_nat (n div 10) @ [digit_char (n mod 10)])"

definition str_of_int :: "int \<Rightarrow> string" where
  "str_of_int i = (if i < 0 then CHR ''-'' # str_of_nat (nat (- i)) else str_of_nat (nat i))"

text \<open>
  \<^verbatim>\<open>int(s)\<close> for a string: surrounding whitespace is dropped, one sign is allowed, then
  decimal digits, where single underscores may stand between two digits. Anything else
  raises \<^verbatim>\<open>ValueError\<close>, here \<open>None\<close>. The whitespace \<^verbatim>\<open>int\<close> drops is narrower than
  that of \<^verbatim>\<open>strip\<close>: below 127 only the characters 9 to 13 and the space, so not the
  separators 28 to 31.
\<close>

definition digit_val :: "char \<Rightarrow> nat option" where
  "digit_val c =
     (let n = (of_char c :: nat) in if 48 \<le> n \<and> n \<le> 57 then Some (n - 48) else None)"

fun parse_digits :: "nat \<Rightarrow> string \<Rightarrow> nat option" where
  "parse_digits acc [] = Some acc"
| "parse_digits acc [c] =
     (case digit_val c of None \<Rightarrow> None | Some v \<Rightarrow> Some (acc * 10 + v))"
| "parse_digits acc (c # d # ds) =
     (if c = CHR ''_''
      then (case digit_val d of None \<Rightarrow> None | Some v \<Rightarrow> parse_digits (acc * 10 + v) ds)
      else (case digit_val c of None \<Rightarrow> None | Some v \<Rightarrow> parse_digits (acc * 10 + v) (d # ds)))"

definition parse_nat :: "string \<Rightarrow> nat option" where
  "parse_nat s =
     (case s of
        [] \<Rightarrow> None
      | c # cs \<Rightarrow> (case digit_val c of None \<Rightarrow> None | Some v \<Rightarrow> parse_digits v cs))"

definition is_int_space :: "char \<Rightarrow> bool" where
  "is_int_space c = (of_char c \<in> set [9, 10, 11, 12, 13, 32, 133, 160 :: nat])"

definition int_strip :: "string \<Rightarrow> string" where
  "int_strip s = rev (dropWhile is_int_space (rev (dropWhile is_int_space s)))"

definition py_int :: "string \<Rightarrow> int option" where
  "py_int s =
     (case int_strip s of
        [] \<Rightarrow> None
      | c # cs \<Rightarrow>
          if c = CHR ''-'' then map_option (\<lambda>n. - int n) (parse_nat cs)
          else if c = CHR ''+'' then map_option int (parse_nat cs)
          else map_option int (parse_nat (c # cs)))"

section \<open>The ephemeral key-value store\<close>

text \<open>
  \<^verbatim>\<open>redis_client\<close> is a map from keys to a value and an optional expiry instant. Instants
  are microseconds since the epoch. The store compares them in milliseconds: an entry is
  served as long as the millisecond of the read is not after that of its expiry, and is
  absent for every reader from then on. Values are the texts the client reads back (\<^verbatim>\<open>decode_responses=True\<close>);
  the JSON text of a session record is kept as the record it serialises.
\<close>

type_synonym instant = nat

definition seconds :: "nat \<Rightarrow> nat" where
  "seconds n = n * 1000000"

record client_info =
  ip_address :: "string option"
  user_agent :: string
  timestamp :: instant
  device_id :: "string option"
  app_version :: "string option"
  platform :: "string option"
  device_fingerprint :: "string option"

record session_data =
  s_user_id :: string
  s_username :: string
  s_login_time :: instant
  s_client_info :: client_info

datatype redis_value = Text string | SessionJson session_data

type_synonym redis = "string \<Rightarrow> (redis_value \<times> instant option) option"

definition redis_get :: "redis \<Rightarrow> instant \<Rightarrow> string \<Rightarrow> redis_value option" where
  "redis_get r now k =
     (case r k of
        None \<Rightarrow> None
      | Some (v, None) \<Rightarrow> Some v
      | Some (v, Some e) \<Rightarrow> if now div 1000 \<le> e div 1000 then Some v else None)"

text \<open>
  The store counts in signed 64-bit integers. Its clock is such a count of microseconds,
  so it never reads more than the largest of them, and expiries are kept in milliseconds
  on that clock.
\<close>

definition LLONG_MAX :: int where
  "LLONG_MAX = 9223372036854775807"

definition mstime :: "instant \<Rightarrow> int" where
  "mstime now = min (int now) LLONG_MAX div 1000"

text \<open>
  \<^verbatim>\<open>SETEX\<close> refuses an expiry time that is not positive, and one whose expiry, the time
  in milliseconds added to the clock, does not fit 64 bits.
\<close>

definition redis_setex :: "redis \<Rightarrow> instant \<Rightarrow> string \<Rightarrow> int \<Rightarrow> redis_value \<Rightarrow> redis result" where
  "redis_setex r now k ttl v =
     (if ttl \<le> 0 \<or> LLONG_MAX < ttl * 1000 + mstime now then Inl ResponseError
      else Inr (r(k \<mapsto> (v, Some (now + seconds (nat ttl))))))"

text \<open>
  \<^verbatim>\<open>INCR\<close> adds one to a value that is the decimal text of a 64-bit integer and keeps the
  entry's expiry; it refuses any other value, and the largest integer, which it cannot
  increment. An absent (or expired) key is created as 1 with no expiry.
\<close>

definition redis_int :: "redis_value \<Rightarrow> int option" where
  "redis_int v =
     (case v of
        Text s \<Rightarrow> (case py_int s of
                     None \<Rightarrow> None
                   | Some n \<Rightarrow>
                       if str_of_int n = s \<and> - LLONG_MAX - 1 \<le> n \<and> n \<le> LLONG_MAX
                       then Some n else None)
      | SessionJson d \<Rightarrow> None)"

definition expiry_of :: "redis \<Rightarrow> string \<Rightarrow> instant option" where
  "expiry_of r k = (case r k of None \<Rightarrow> None | Some (v, e) \<Rightarrow> e)"

definition redis_incr :: "redis \<Rightarrow> instant \<Rightarrow> string \<Rightarrow> redis result" where
  "redis_incr r now k =
     (case redis_get r now k of
        None \<Rightarrow> Inr (r(k \<mapsto> (Text (str_of_int 1), None)))
      | Some v \<Rightarrow>
          (case redis_int v of
             None \<Rightarrow> Inl ResponseError
           | Some n \<Rightarrow>
               if n = LLONG_MAX then Inl ResponseError
               else Inr (r(k \<mapsto> (Text (str_of_int (n + 1)), expiry_of r k)))))"

definition redis_delete :: "redis \<Rightarrow> string \<Rightarrow> redis" where
  "redis_delete r k = r(k := None)"

text \<open>Truthiness of a value read from the store: only the empty text is false.\<close>

definition value_truthy :: "redis_value option \<Rightarrow> bool" where
  "value_truthy x = (case x of None \<Rightarrow> False | Some (Text s) \<Rightarrow> s \<noteq> [] | Some (SessionJson d) \<Rightarrow> True)"

section \<open>Rate limiter\<close>

text \<open>
  \<^verbatim>\<open>check_rate_limit\<close>: read the counter; when there is none, store 1 with the window as
  expiry and admit; when it is below the limit, increment and admit; otherwise refuse.
  \<^verbatim>\<open>int(current)\<close> raises on a text that is no integer. The function is its first
  line, the \<^verbatim>\<open>GET\<close>, followed by \<open>rate_limit_decide\<close>, the \<^verbatim>\<open>if\<close> on what was read.
\<close>

definition rate_key :: "string \<Rightarrow> string" where
  "rate_key identifier = ''rate_limit:'' @ identifier"

definition rate_limit_decide ::
  "redis_value option \<Rightarrow> redis \<Rightarrow> instant \<Rightarrow> string \<Rightarrow> int \<Rightarrow> int \<Rightarrow> (bool \<times> redis) result" where
  "rate_limit_decide current r now identifier limit window =
     (case current of
        None \<Rightarrow>
          (case redis_setex r now (rate_key identifier) window (Text (str_of_int 1)) of
             Inl e \<Rightarrow> Inl e
           | Inr r' \<Rightarrow> Inr (True, r'))
      | Some v \<Rightarrow>
          (case (case v of Text s \<Rightarrow> py_int s | SessionJson d \<Rightarrow> None) of
             None \<Rightarrow> Inl ValueError
           | Some c \<Rightarrow>
               if c < limit
               then (case redis_incr r now (rate_key identifier) of
                       Inl e \<Rightarrow> Inl e
                     | Inr r' \<Rightarrow> Inr (True, r'))
               else Inr (False, r)))"

definition check_rate_limit ::
  "redis \<Rightarrow> instant \<Rightarrow> string \<Rightarrow> int \<Rightarrow> int \<Rightarrow> (bool \<times> redis) result" where
  "check_rate_limit r now identifier limit window =
     rate_limit_decide (redis_get r now (rate_key identifier)) r now identifier limit window"

text \<open>Calls one after another, at the given instants; the first exception ends the run.\<close>

fun admit_seq :: "redis \<Rightarrow> string \<Rightarrow> int \<Rightarrow> int \<Rightarrow> instant list \<Rightarrow> (bool list \<times> redis) result" where
  "admit_seq r identifier limit window [] = Inr ([], r)"
| "admit_seq r identifier limit window (t # ts) =
     (case check_rate_limit r t identifier limit window of
        Inl e \<Rightarrow> Inl e
      | Inr (b, r') \<Rightarrow>
          (case admit_seq r' identifier limit window ts of
             Inl e \<Rightarrow> Inl e
           | Inr (bs, r'') \<Rightarrow> Inr (b # bs, r'')))"

section \<open>Configuration\<close>

definition JWT_SECRET :: string where
  "JWT_SECRET = ''jwt-secret-for-testing''"

definition JWT_EXPIRATION_HOURS :: nat where
  "JWT_EXPIRATION_HOURS = 24"

definition MAX_LOGIN_ATTEMPTS :: int where
  "MAX_LOGIN_ATTEMPTS = 5"

definition ACCOUNT_LOCKOUT_DURATION :: nat where
  "ACCOUNT_LOCKOUT_DURATION = 30"

definition CAPTCHA_THRESHOLD :: int where
  "CAPTCHA_THRESHOLD = 3"

definition SESSION_TIMEOUT :: int where
  "SESSION_TIMEOUT = 30"

section \<open>Accounts\<close>

text \<open>
  A row of \<^verbatim>\<open>test_users\<close>, with the columns \<^verbatim>\<open>login\<close> selects and updates. The key
  \<open>u_id\<close> is held as its text, so that \<^verbatim>\<open>str(user_data['id'])\<close> is the field itself.
  The table is the list of its rows; \<^verbatim>\<open>fetchone\<close> takes the first row that matches.
\<close>

record user_row =
  u_id :: string
  u_username :: string
  u_email :: string
  password_hash :: string
  salt :: string
  is_active :: bool
  is_locked :: bool
  failed_login_attempts :: int
  biometric_enabled :: bool
  two_factor_enabled :: bool
  user_role :: string
  last_login_attempt :: "instant option"

definition find_user :: "user_row list \<Rightarrow> string \<Rightarrow> user_row option" where
  "find_user rows name = find (\<lambda>u. u_username u = name \<or> u_email u = name) rows"

text \<open>
  The \<^verbatim>\<open>UPDATE\<close> after a failed password check: the right-hand sides read the row as it
  was before the statement.
\<close>

definition record_failed_login :: "user_row list \<Rightarrow> string \<Rightarrow> instant \<Rightarrow> user_row list" where
  "record_failed_login rows uid now =
     map (\<lambda>u. if u_id u = uid
              then u\<lparr>failed_login_attempts := failed_login_attempts u + 1,
                     last_login_attempt := Some now,
                     is_locked := (failed_login_attempts u + 1 \<ge> MAX_LOGIN_ATTEMPTS)\<rparr>
              else u) rows"

text \<open>The \<^verbatim>\<open>UPDATE\<close> after a successful authentication.\<close>

definition reset_failed_login :: "user_row list \<Rightarrow> string \<Rightarrow> instant \<Rightarrow> user_row list" where
  "reset_failed_login rows uid now =
     map (\<lambda>u. if u_id u = uid
              then u\<lparr>failed_login_attempts := 0,
                     last_login_attempt := Some now,
                     is_locked := False\<rparr>
              else u) rows"

section \<open>Tokens\<close>

text \<open>
  The JWT library is outside the repository. A token is the payload together with the
  key that signed it, or a text that is no token; decoding with another key, or a text
  that is no token, raises \<^verbatim>\<open>InvalidTokenError\<close>. \<^verbatim>\<open>jwt.encode\<close> writes the time claims
  as whole seconds since the epoch; \<^verbatim>\<open>jwt.decode\<close> refuses a token issued in the future
  and, unless \<^verbatim>\<open>verify_exp\<close> is off, one whose expiry has been reached.
\<close>

record payload =
  p_user_id :: string
  p_username :: string
  p_email :: string
  p_role :: string
  p_exp :: nat
  p_iat :: nat
  p_jti :: string

datatype token = Signed string payload | Malformed string

datatype jwt_error = ExpiredSignatureError | InvalidTokenError

definition timegm :: "instant \<Rightarrow> nat" where
  "timegm t = t div 1000000"

definition jwt_encode :: "payload \<Rightarrow> string \<Rightarrow> token" where
  "jwt_encode p secret = Signed secret p"

definition jwt_decode :: "token \<Rightarrow> string \<Rightarrow> bool \<Rightarrow> instant \<Rightarrow> jwt_error + payload" where
  "jwt_decode tok secret verify_exp now =
     (case tok of
        Malformed s \<Rightarrow> Inl InvalidTokenError
      | Signed k p \<Rightarrow>
          if k \<noteq> secret then Inl InvalidTokenError
          else if now < seconds (p_iat p) then Inl InvalidTokenError
          else if verify_exp \<and> seconds (p_exp p) \<le> now then Inl ExpiredSignatureError
          else Inr p)"

text \<open>
  \<^verbatim>\<open>generate_jwt_token\<close> reads the clock twice, once for \<^verbatim>\<open>exp\<close> and once for
  \<^verbatim>\<open>iat\<close>; the two readings and the fresh \<^verbatim>\<open>uuid4\<close> are arguments.
\<close>

definition generate_jwt_token :: "user_row \<Rightarrow> instant \<Rightarrow> instant \<Rightarrow> string \<Rightarrow> token" where
  "generate_jwt_token user_data utcnow_exp utcnow_iat uuid =
     jwt_encode
       \<lparr>p_user_id = u_id user_data,
        p_username = u_username user_data,
        p_email = u_email user_data,
        p_role = user_role user_data,
        p_exp = timegm (utcnow_exp + seconds (JWT_EXPIRATION_HOURS * 3600)),
        p_iat = timegm utcnow_iat,
        p_jti = uuid\<rparr>
       JWT_SECRET"

definition blacklist_key :: "string \<Rightarrow> string" where
  "blacklist_key jti = ''blacklist:'' @ jti"

definition verify_jwt_token :: "redis \<Rightarrow> instant \<Rightarrow> token \<Rightarrow> payload option" where
  "verify_jwt_token r now tok =
     (case jwt_decode tok JWT_SECRET True now of
        Inl e \<Rightarrow> None
      | Inr p \<Rightarrow>
          if value_truthy (redis_get r now (blacklist_key (p_jti p))) then None else Some p)"


text \<open>The payload of a token that carries the server's signature.\<close>

definition signed_payload :: "token \<Rightarrow> payload option" where
  "signed_payload tok =
     (case tok of
        Malformed s \<Rightarrow> None
      | Signed k p \<Rightarrow> if k = JWT_SECRET then Some p else None)"

section \<open>CAPTCHA gate\<close>

record captcha_challenge =
  captcha_id :: string
  question :: string
  expires_in :: int

definition captcha_key :: "string \<Rightarrow> string" where
  "captcha_key cid = ''captcha:'' @ cid"

text \<open>The two \<^verbatim>\<open>secrets.randbelow(10)\<close> draws and the fresh \<^verbatim>\<open>uuid4\<close> are arguments.\<close>

definition generate_captcha ::
  "redis \<Rightarrow> instant \<Rightarrow> nat \<Rightarrow> nat \<Rightarrow> string \<Rightarrow> (captcha_challenge \<times> redis) result" where
  "generate_captcha r now num1 num2 uuid =
     (let answer = str_of_int (int (num1 + num2)) in
      case redis_setex r now (captcha_key uuid) 300 (Text answer) of
        Inl e \<Rightarrow> Inl e
      | Inr r' \<Rightarrow>
          Inr (\<lparr>captcha_id = uuid,
                question = str_of_int (int num1) @ '' + '' @ str_of_int (int num2) @ '' = ?'',
                expires_in = 300\<rparr>, r'))"

definition verify_captcha :: "redis \<Rightarrow> instant \<Rightarrow> string \<Rightarrow> string \<Rightarrow> bool \<times> redis" where
  "verify_captcha r now cid user_answer =
     (let correct_answer = redis_get r now (captcha_key cid) in
      if value_truthy correct_answer \<and> Some (Text (py_strip user_answer)) = correct_answer
      then (True, redis_delete r (captcha_key cid))
      else (False, r))"

section \<open>Request context and risk score\<close>

text \<open>
  What \<^verbatim>\<open>login\<close> reads of a request: the four fields of the JSON body, each a string or
  absent, the forwarded and the remote address, and the headers.
\<close>

record request =
  json_username :: "string option"
  json_password :: "string option"
  json_captcha_id :: "string option"
  json_captcha_answer :: "string option"
  forwarded_for :: "string option"
  remote_addr :: "string option"
  header_user_agent :: "string option"
  header_device_id :: "string option"
  header_app_version :: "string option"
  header_platform :: "string option"
  header_device_fingerprint :: "string option"

definition get_client_info :: "request \<Rightarrow> instant \<Rightarrow> client_info" where
  "get_client_info rq now =
     \<lparr>ip_address = (case forwarded_for rq of Some a \<Rightarrow> Some a | None \<Rightarrow> remote_addr rq),
      user_agent = (case header_user_agent rq of Some a \<Rightarrow> a | None \<Rightarrow> []),
      timestamp = now,
      device_id = header_device_id rq,
      app_version = header_app_version rq,
      platform = header_platform rq,
      device_fingerprint = header_device_fingerprint rq\<rparr>"

text \<open>
  \<^verbatim>\<open>calculate_risk_score\<close>; \<open>hour\<close> is \<^verbatim>\<open>datetime.now().hour\<close>. An address that is
  \<^verbatim>\<open>None\<close> has no \<^verbatim>\<open>startswith\<close>: \<^verbatim>\<open>AttributeError\<close>.
\<close>

definition calculate_risk_score :: "client_info \<Rightarrow> bool \<Rightarrow> nat \<Rightarrow> int result" where
  "calculate_risk_score ci success hour =
     (case ip_address ci of
        None \<Rightarrow> Inl AttributeError
      | Some ip \<Rightarrow>
          (let risk0 = (0 :: int);
               risk1 = (if startswith ip ''127.'' \<or> startswith ip ''192.168.''
                        then risk0 + 10 else risk0);
               risk2 = (if \<not> truthy (device_fingerprint ci) then risk1 + 20 else risk1);
               risk3 = (if \<not> success then risk2 + 30 else risk2);
               risk4 = (if hour < 6 \<or> hour > 22 then risk3 + 15 else risk3)
           in Inr (min risk4 100)))"

text \<open>
  The score as the specification words it, over the four facts it names: the address is
  a loopback or private-range one, no fingerprint was supplied, the attempt failed, and
  the hour, which counts when it lies outside \<open>[6, 22)\<close>.
\<close>

definition spec_risk_score :: "bool \<Rightarrow> bool \<Rightarrow> bool \<Rightarrow> nat \<Rightarrow> int" where
  "spec_risk_score local_or_private no_fingerprint failed hour =
     min 100
       ((if local_or_private then 10 else 0) + (if no_fingerprint then 20 else 0)
        + (if failed then 30 else 0) + (if 6 \<le> hour \<and> hour < 22 then 0 else 15))"

section \<open>Audit log and server state\<close>

record auth_event =
  ev_user_id :: string
  ev_type :: string
  ev_ip :: "string option"
  ev_user_agent :: string
  ev_fingerprint :: "string option"
  ev_additional :: client_info
  ev_risk :: int

record backend =
  test_users :: "user_row list"
  auth_events_log :: "auth_event list"
  redis_client :: redis

text \<open>
  \<^verbatim>\<open>log_auth_event\<close> reads the request context again and inserts one row; an exception on
  the way is logged and swallowed, and no row is written.
\<close>

definition log_auth_event ::
  "backend \<Rightarrow> request \<Rightarrow> instant \<Rightarrow> nat \<Rightarrow> string \<Rightarrow> string \<Rightarrow> bool \<Rightarrow> client_info \<Rightarrow> backend" where
  "log_auth_event b rq now hour uid event_type success additional_data =
     (let ci = get_client_info rq now in
      case calculate_risk_score ci success hour of
        Inl e \<Rightarrow> b
      | Inr risk \<Rightarrow>
          b\<lparr>auth_events_log := auth_events_log b @
               [\<lparr>ev_user_id = uid, ev_type = event_type, ev_ip = ip_address ci,
                 ev_user_agent = user_agent ci, ev_fingerprint = device_fingerprint ci,
                 ev_additional = additional_data, ev_risk = risk\<rparr>]\<rparr>)"

section \<open>Auxiliary notions for the proofs\<close>

text \<open>The value of a string of digits read from the left, and strings of digits only.\<close>

definition digits_value :: "nat \<Rightarrow> string \<Rightarrow> nat" where
  "digits_value acc s = foldl (\<lambda>a c. a * 10 + (of_char c - 48)) acc s"

definition all_digits :: "string \<Rightarrow> bool" where
  "all_digits s = list_all (\<lambda>c. digit_val c \<noteq> None) s"

text \<open>
  The admissions the specification asks of \<open>n\<close> calls in one window: exactly the first
  \<open>limit\<close> of them.
\<close>

definition first_admitted :: "int \<Rightarrow> nat \<Rightarrow> bool list" where
  "first_admitted limit n = map (\<lambda>i. int i < limit) [0..<n]"


text \<open>An account for the concrete runs below.\<close>

definition alice :: user_row where
  "alice = \<lparr>u_id = ''17'', u_username = ''alice'', u_email = ''alice@example.com'',
            password_hash = ''hash-of-secret'', salt = ''na'', is_active = True,
            is_locked = False, failed_login_attempts = 0, biometric_enabled = False,
            two_factor_enabled = False, user_role = ''user'', last_login_attempt = None\<rparr>"

section \<open>Login\<close>

text \<open>
  The JSON body of a response, with the HTTP status. The inputs of one call that the code
  draws from outside are gathered in \<open>login_env\<close>: the instant of the call (the stores'
  clock, and the timestamps that are only reported), the local hour, the two clock
  readings of \<^verbatim>\<open>generate_jwt_token\<close>, the fresh \<^verbatim>\<open>uuid4\<close> values and the two random
  operands of a challenge.
\<close>

record user_summary =
  us_id :: string
  us_username :: string
  us_email :: string
  us_role :: string
  us_biometric_enabled :: bool
  us_two_factor_enabled :: bool

record response =
  rs_status :: nat
  rs_success :: bool
  rs_message :: string
  rs_error_code :: "string option"
  rs_unlock_time :: "instant option"
  rs_captcha :: "captcha_challenge option"
  rs_remaining_attempts :: "int option"
  rs_token :: "token option"
  rs_session_id :: "string option"
  rs_user :: "user_summary option"
  rs_expires_in :: "nat option"
  rs_requires_2fa :: "bool option"

record login_env =
  e_now :: instant
  e_local_hour :: nat
  e_utcnow_exp :: instant
  e_utcnow_iat :: instant
  e_jti_uuid :: string
  e_session_uuid :: string
  e_captcha_uuid :: string
  e_num1 :: nat
  e_num2 :: nat

definition failure :: "nat \<Rightarrow> string \<Rightarrow> string \<Rightarrow> response" where
  "failure code msg err =
     \<lparr>rs_status = code, rs_success = False, rs_message = msg, rs_error_code = Some err,
      rs_unlock_time = None, rs_captcha = None, rs_remaining_attempts = None,
      rs_token = None, rs_session_id = None, rs_user = None, rs_expires_in = None,
      rs_requires_2fa = None\<rparr>"

text \<open>The \<^verbatim>\<open>except Exception\<close> handler of \<^verbatim>\<open>login\<close>.\<close>

definition internal_error :: response where
  "internal_error = failure 500 ''Internal server error'' ''INTERNAL_ERROR''"

text \<open>An address inside an f-string: \<^verbatim>\<open>None\<close> is written as the text \<^verbatim>\<open>None\<close>.\<close>

definition format_ip :: "string option \<Rightarrow> string" where
  "format_ip ip = (case ip of None \<Rightarrow> ''None'' | Some a \<Rightarrow> a)"

text \<open>
  \<^verbatim>\<open>login\<close>, from its last block to its first. The framework's limiter in the decorator
  stands before the function and the pause on the not-found path only takes time; neither
  is part of the model. After the password is verified: reset the account, issue the
  token, store the session, log, answer.
\<close>

definition login_success ::
  "login_env \<Rightarrow> request \<Rightarrow> client_info \<Rightarrow> user_row \<Rightarrow> backend \<Rightarrow> response \<times> backend" where
  "login_success e rq ci user_data b =
     (let b1 = b\<lparr>test_users := reset_failed_login (test_users b) (u_id user_data) (e_now e)\<rparr>;
          tok = generate_jwt_token user_data (e_utcnow_exp e) (e_utcnow_iat e) (e_jti_uuid e);
          sid = e_session_uuid e;
          sd = \<lparr>s_user_id = u_id user_data, s_username = u_username user_data,
                s_login_time = e_now e, s_client_info = ci\<rparr>
      in case redis_setex (redis_client b1) (e_now e) (''session:'' @ sid)
                (SESSION_TIMEOUT * 60) (SessionJson sd) of
           Inl err \<Rightarrow> (internal_error, b1)
         | Inr r' \<Rightarrow>
             (\<lparr>rs_status = 200, rs_success = True,
               rs_message = (if two_factor_enabled user_data
                             then ''Two-factor authentication required''
                             else ''Login successful''),
               rs_error_code = None, rs_unlock_time = None, rs_captcha = None,
               rs_remaining_attempts = None, rs_token = Some tok, rs_session_id = Some sid,
               rs_user = Some \<lparr>us_id = u_id user_data, us_username = u_username user_data,
                                us_email = u_email user_data, us_role = user_role user_data,
                                us_biometric_enabled = biometric_enabled user_data,
                                us_two_factor_enabled = two_factor_enabled user_data\<rparr>,
               rs_expires_in = Some (JWT_EXPIRATION_HOURS * 3600),
               rs_requires_2fa = (if two_factor_enabled user_data then Some True else None)\<rparr>,
              log_auth_event (b1\<lparr>redis_client := r'\<rparr>) rq (e_now e) (e_local_hour e)
                (u_id user_data) ''login_success'' True ci))"

text \<open>
  The password check. \<open>check_password_hash\<close> is the hashing library's, an argument of
  the model. \<open>user_data\<close> is the row as it was selected, before any update.
\<close>

definition login_verify_password ::
  "(string \<Rightarrow> string \<Rightarrow> bool) \<Rightarrow> login_env \<Rightarrow> request \<Rightarrow> client_info \<Rightarrow> string \<Rightarrow> user_row \<Rightarrow>
     backend \<Rightarrow> response \<times> backend" where
  "login_verify_password check_password_hash e rq ci password user_data b =
     (if \<not> check_password_hash (password_hash user_data) password
      then
        (let b1 = b\<lparr>test_users :=
                       record_failed_login (test_users b) (u_id user_data) (e_now e)\<rparr>;
             b2 = log_auth_event b1 rq (e_now e) (e_local_hour e) (u_id user_data)
                    ''login_failed_password'' False ci;
             failed_attempts = failed_login_attempts user_data
         in if failed_attempts + 1 \<ge> MAX_LOGIN_ATTEMPTS
            then (failure 401 ''Account locked due to too many failed attempts''
                    ''ACCOUNT_LOCKED'', b2)
            else ((failure 401 ''Invalid credentials'' ''INVALID_CREDENTIALS'')
                    \<lparr>rs_remaining_attempts :=
                       Some (MAX_LOGIN_ATTEMPTS - (failed_attempts + 1))\<rparr>, b2))
      else login_success e rq ci user_data b)"

text \<open>A rejection at the CAPTCHA gate, with a freshly issued challenge attached.\<close>

definition captcha_rejection :: "login_env \<Rightarrow> string \<Rightarrow> string \<Rightarrow> backend \<Rightarrow> response \<times> backend" where
  "captcha_rejection e msg err b =
     (case generate_captcha (redis_client b) (e_now e) (e_num1 e) (e_num2 e) (e_captcha_uuid e) of
        Inl x \<Rightarrow> (internal_error, b)
      | Inr (c, r') \<Rightarrow> ((failure 400 msg err)\<lparr>rs_captcha := Some c\<rparr>, b\<lparr>redis_client := r'\<rparr>))"

definition login_captcha_gate ::
  "(string \<Rightarrow> string \<Rightarrow> bool) \<Rightarrow> login_env \<Rightarrow> request \<Rightarrow> client_info \<Rightarrow> string \<Rightarrow> user_row \<Rightarrow>
     backend \<Rightarrow> response \<times> backend" where
  "login_captcha_gate check_password_hash e rq ci password user_data b =
     (if failed_login_attempts user_data \<ge> CAPTCHA_THRESHOLD
      then
        (case (json_captcha_id rq, json_captcha_answer rq) of
           (Some cid, Some answer) \<Rightarrow>
             if cid = [] \<or> answer = []
             then captcha_rejection e ''CAPTCHA verification required'' ''CAPTCHA_REQUIRED'' b
             else
               (case verify_captcha (redis_client b) (e_now e) cid answer of
                  (False, r') \<Rightarrow>
                    captcha_rejection e ''Invalid CAPTCHA'' ''INVALID_CAPTCHA''
                      (log_auth_event (b\<lparr>redis_client := r'\<rparr>) rq (e_now e) (e_local_hour e)
                         (u_id user_data) ''login_failed_captcha'' False ci)
                | (True, r') \<Rightarrow>
                    login_verify_password check_password_hash e rq ci password user_data
                      (b\<lparr>redis_client := r'\<rparr>))
         | _ \<Rightarrow> captcha_rejection e ''CAPTCHA verification required'' ''CAPTCHA_REQUIRED'' b)
      else login_verify_password check_password_hash e rq ci password user_data b)"

definition login_status_check ::
  "(string \<Rightarrow> string \<Rightarrow> bool) \<Rightarrow> login_env \<Rightarrow> request \<Rightarrow> client_info \<Rightarrow> string \<Rightarrow> user_row \<Rightarrow>
     backend \<Rightarrow> response \<times> backend" where
  "login_status_check check_password_hash e rq ci password user_data b =
     (if \<not> is_active user_data
      then (failure 401 ''Account is inactive'' ''ACCOUNT_INACTIVE'',
            log_auth_event b rq (e_now e) (e_local_hour e) (u_id user_data)
              ''login_failed_inactive'' False ci)
      else if is_locked user_data
      then ((failure 401 ''Account is temporarily locked due to too many failed attempts''
               ''ACCOUNT_LOCKED'')
              \<lparr>rs_unlock_time := Some (e_now e + seconds (ACCOUNT_LOCKOUT_DURATION * 60))\<rparr>,
            log_auth_event b rq (e_now e) (e_local_hour e) (u_id user_data)
              ''login_failed_locked'' False ci)
      else login_captcha_gate check_password_hash e rq ci password user_data b)"

definition login ::
  "(string \<Rightarrow> string \<Rightarrow> bool) \<Rightarrow> login_env \<Rightarrow> request \<Rightarrow> backend \<Rightarrow> response \<times> backend" where
  "login check_password_hash e rq b =
     (case (json_username rq, json_password rq) of
        (Some un, Some password) \<Rightarrow>
          if un = [] \<or> password = []
          then (failure 400 ''Username and password are required'' ''MISSING_CREDENTIALS'', b)
          else
            (let username = py_lower (py_strip un);
                 ci = get_client_info rq (e_now e);
                 client_id = format_ip (ip_address ci) @ '':'' @ username
             in case check_rate_limit (redis_client b) (e_now e) client_id 10 300 of
                  Inl x \<Rightarrow> (internal_error, b)
                | Inr (False, r') \<Rightarrow>
                    (failure 429 ''Too many login attempts. Please try again later.''
                       ''RATE_LIMITED'',
                     log_auth_event (b\<lparr>redis_client := r'\<rparr>) rq (e_now e) (e_local_hour e)
                       username ''login_rate_limited'' False ci)
                | Inr (True, r') \<Rightarrow>
                    (case find_user (test_users b) username of
                       None \<Rightarrow>
                         (failure 401 ''Invalid credentials'' ''INVALID_CREDENTIALS'',
                          log_auth_event (b\<lparr>redis_client := r'\<rparr>) rq (e_now e)
                            (e_local_hour e) username ''login_failed_user_not_found'' False ci)
                     | Some user_data \<Rightarrow>
                         login_status_check check_password_hash e rq ci password user_data
                           (b\<lparr>redis_client := r'\<rparr>)))
      | _ \<Rightarrow> (failure 400 ''Username and password are required'' ''MISSING_CREDENTIALS'', b))"

text \<open>
  The name under which \<^verbatim>\<open>login\<close> looks an account up, and the responses of a failed
  password check: the two \<^verbatim>\<open>return\<close>s inside \<^verbatim>\<open>if not check_password_hash\<close>.
\<close>

definition login_name :: "string \<Rightarrow> string" where
  "login_name un = py_lower (py_strip un)"

definition failed_password_response :: "response \<Rightarrow> bool" where
  "failed_password_response rs =
     (rs_status rs = 401 \<and>
      (rs_error_code rs = Some ''INVALID_CREDENTIALS'' \<and> rs_remaining_attempts rs \<noteq> None
       \<or> rs_error_code rs = Some ''ACCOUNT_LOCKED'' \<and> rs_unlock_time rs = None))"

text \<open>
  Login attempts one after another on the same database. Between two attempts the
  ephemeral store may change in any way (challenges are issued, windows expire), so each
  attempt comes with the store it finds.
\<close>

fun login_run ::
  "(string \<Rightarrow> string \<Rightarrow> bool) \<Rightarrow> backend \<Rightarrow> (login_env \<times> request \<times> redis) list \<Rightarrow>
     response list \<times> backend" where
  "login_run check_password_hash b [] = ([], b)"
| "login_run check_password_hash b ((e, rq, r) # rest) =
     (case login check_password_hash e rq (b\<lparr>redis_client := r\<rparr>) of
        (rs, b') \<Rightarrow>
          (case login_run check_password_hash b' rest of
             (rss, b'') \<Rightarrow> (rs # rss, b'')))"

text \<open>
  The identifier \<^verbatim>\<open>login\<close> hands to the rate limiter, the condition under which the
  CAPTCHA gate lets an attempt through to the password check, and the response of the
  failed password branch.
\<close>

definition login_client_id :: "request \<Rightarrow> login_env \<Rightarrow> string \<Rightarrow> string" where
  "login_client_id rq e un =
     format_ip (ip_address (get_client_info rq (e_now e))) @ '':'' @ login_name un"

definition passes_captcha_gate :: "login_env \<Rightarrow> request \<Rightarrow> user_row \<Rightarrow> redis \<Rightarrow> bool" where
  "passes_captcha_gate e rq u r =
     (failed_login_attempts u < CAPTCHA_THRESHOLD \<or>
      (case (json_captcha_id rq, json_captcha_answer rq) of
         (Some cid, Some answer) \<Rightarrow>
           cid \<noteq> [] \<and> answer \<noteq> [] \<and> fst (verify_captcha r (e_now e) cid answer)
       | _ \<Rightarrow> False))"

definition wrong_password_response :: "user_row \<Rightarrow> response" where
  "wrong_password_response u =
     (if failed_login_attempts u + 1 \<ge> MAX_LOGIN_ATTEMPTS
      then failure 401 ''Account locked due to too many failed attempts'' ''ACCOUNT_LOCKED''
      else (failure 401 ''Invalid credentials'' ''INVALID_CREDENTIALS'')
             \<lparr>rs_remaining_attempts :=
                Some (MAX_LOGIN_ATTEMPTS - (failed_login_attempts u + 1))\<rparr>)"

section \<open>Concrete data for the runs\<close>

text \<open>
  A stand-in for the password check, an environment, requests from one address, and
  stores with and without a pending challenge.
\<close>

definition check_plain :: "string \<Rightarrow> string \<Rightarrow> bool" where
  "check_plain h p = (h = ''hash-of-'' @ p)"

definition env0 :: login_env where
  "env0 = \<lparr>e_now = 5000000, e_local_hour = 12, e_utcnow_exp = 5000001,
           e_utcnow_iat = 5000002, e_jti_uuid = ''jti-1'', e_session_uuid = ''sid-1'',
           e_captcha_uuid = ''c-9'', e_num1 = 3, e_num2 = 4\<rparr>"

definition request_of :: "string \<Rightarrow> string \<Rightarrow> string option \<Rightarrow> string option \<Rightarrow> request" where
  "request_of un pw cid answer =
     \<lparr>json_username = Some un, json_password = Some pw, json_captcha_id = cid,
      json_captcha_answer = answer, forwarded_for = None, remote_addr = Some ''10.0.0.7'',
      header_user_agent = None, header_device_id = None, header_app_version = None,
      header_platform = None, header_device_fingerprint = None\<rparr>"

definition backend_of :: "user_row list \<Rightarrow> redis \<Rightarrow> backend" where
  "backend_of rows r = \<lparr>test_users = rows, auth_events_log = [], redis_client = r\<rparr>"

definition captcha_store :: redis where
  "captcha_store = [captcha_key ''c-1'' \<mapsto> (Text ''7'', Some 300000000)]"

definition five_attempts :: "(login_env \<times> request \<times> redis) list" where
  "five_attempts =
     [(env0, request_of ''alice'' ''guess'' None None, Map.empty),
      (env0, request_of ''alice'' ''guess'' None None, Map.empty),
      (env0, request_of ''alice'' ''guess'' None None, Map.empty),
      (env0, request_of ''alice'' ''guess'' (Some ''c-1'') (Some ''7''), captcha_store),
      (env0, request_of ''alice'' ''guess'' (Some ''c-1'') (Some ''7''), captcha_store)]"

section \<open>Rate limiter calls that run at the same time\<close>

text \<open>
  A call of \<^verbatim>\<open>check_rate_limit\<close> makes two trips to the store: the \<^verbatim>\<open>GET\<close>, and then,
  depending on what it read, \<^verbatim>\<open>SETEX\<close>, \<^verbatim>\<open>INCR\<close> or nothing. Each trip is one step;
  between the two steps of a call other calls may take theirs. A schedule names, step by
  step, the call that moves and the instant; \<open>serial_schedule\<close> lets every call take
  both its steps before the next call starts.
\<close>

datatype call_state = Ready | Read "redis_value option" | Returned bool | Raised py_error

definition call_step ::
  "string \<Rightarrow> int \<Rightarrow> int \<Rightarrow> instant \<Rightarrow> call_state \<Rightarrow> redis \<Rightarrow> call_state \<times> redis" where
  "call_step identifier limit window now c r =
     (case c of
        Ready \<Rightarrow> (Read (redis_get r now (rate_key identifier)), r)
      | Read current \<Rightarrow>
          (case rate_limit_decide current r now identifier limit window of
             Inl x \<Rightarrow> (Raised x, r)
           | Inr (b, r') \<Rightarrow> (Returned b, r'))
      | Returned b \<Rightarrow> (Returned b, r)
      | Raised x \<Rightarrow> (Raised x, r))"

fun run_schedule ::
  "string \<Rightarrow> int \<Rightarrow> int \<Rightarrow> (nat \<times> instant) list \<Rightarrow> call_state list \<Rightarrow> redis \<Rightarrow>
     call_state list \<times> redis" where
  "run_schedule identifier limit window [] cs r = (cs, r)"
| "run_schedule identifier limit window ((i, now) # sched) cs r =
     (if i < length cs
      then (case call_step identifier limit window now (cs ! i) r of
              (c', r') \<Rightarrow> run_schedule identifier limit window sched (cs[i := c']) r')
      else run_schedule identifier limit window sched cs r)"

definition admitted :: "call_state list \<Rightarrow> nat" where
  "admitted cs = length (filter (\<lambda>c. c = Returned True) cs)"

fun serial_schedule :: "nat \<Rightarrow> instant list \<Rightarrow> (nat \<times> instant) list" where
  "serial_schedule k [] = []"
| "serial_schedule k (t # ts) = (k, t) # (k, t) # serial_schedule (Suc k) ts"

section \<open>Decimal texts\<close>

declare str_of_nat.simps [simp del]


lemma of_char_digit_char: "d < 10 \<Longrightarrow> (of_char (digit_char d) :: nat) = 48 + d"
  by (simp add: digit_char_def)

lemma digit_val_digit_char: "d < 10 \<Longrightarrow> digit_val (digit_char d) = Some d"
  by (simp add: digit_val_def of_char_digit_char)

lemma digit_val_space: "digit_val c = Some v \<Longrightarrow> \<not> is_int_space c"
  by (auto simp: digit_val_def is_int_space_def Let_def split: if_splits)

lemma digit_val_sign:
  "digit_val c = Some v \<Longrightarrow> c \<noteq> CHR ''_'' \<and> c \<noteq> CHR ''-'' \<and> c \<noteq> CHR ''+''"
  by (auto simp: digit_val_def Let_def split: if_splits)

lemma parse_digits_all_digits:
  "all_digits s \<Longrightarrow> parse_digits acc s = Some (digits_value acc s)"
proof (induction acc s rule: parse_digits.induct)
  case (1 acc)
  then show ?case by (simp add: digits_value_def)
next
  case (2 acc c)
  then show ?case
    by (auto simp: digits_value_def all_digits_def digit_val_def Let_def split: if_splits)
next
  case (3 acc c d ds)
  from "3.prems" obtain v where v: "digit_val c = Some v" and rest: "all_digits (d # ds)"
    by (auto simp: all_digits_def)
  from v have ne: "c \<noteq> CHR ''_''" by (simp add: digit_val_sign)
  from v have vc: "v = of_char c - 48"
    by (auto simp: digit_val_def Let_def split: if_splits)
  from "3.IH"(2)[OF ne v rest] ne v vc show ?case
    by (simp add: digits_value_def)
qed

lemma str_of_nat_digits: "all_digits (str_of_nat n) \<and> digits_value 0 (str_of_nat n) = n \<and> str_of_nat n \<noteq> []"
proof (induction n rule: str_of_nat.induct)
  case (1 n)
  show ?case
  proof (cases "n < 10")
    case True
    then show ?thesis
      by (simp add: str_of_nat.simps[of n] all_digits_def digits_value_def
          digit_val_digit_char of_char_digit_char)
  next
    case False
    have m: "n mod 10 < 10" by simp
    from False "1.IH" m show ?thesis
      by (simp add: str_of_nat.simps[of n] all_digits_def digits_value_def
          digit_val_digit_char of_char_digit_char)
  qed
qed

lemma parse_nat_str_of_nat: "parse_nat (str_of_nat n) = Some n"
proof -
  obtain c cs where s: "str_of_nat n = c # cs"
    using str_of_nat_digits[of n] by (cases "str_of_nat n") auto
  from str_of_nat_digits[of n] s obtain v where v: "digit_val c = Some v" and cs: "all_digits cs"
    by (auto simp: all_digits_def)
  from v have vc: "v = of_char c - 48"
    by (auto simp: digit_val_def Let_def split: if_splits)
  have "digits_value 0 (c # cs) = digits_value v cs"
    by (simp add: digits_value_def vc)
  with str_of_nat_digits[of n] s have "digits_value v cs = n" by simp
  with s v cs show ?thesis
    by (simp add: parse_nat_def parse_digits_all_digits)
qed

lemma int_strip_no_space:
  assumes "s \<noteq> []" "\<not> is_int_space (hd s)" "\<not> is_int_space (last s)"
  shows "int_strip s = s"
proof -
  from assms have a: "dropWhile is_int_space s = s" by (cases s) auto
  from assms have "rev s \<noteq> []" "\<not> is_int_space (hd (rev s))" by (simp_all add: hd_rev)
  then have "dropWhile is_int_space (rev s) = rev s" by (cases "rev s") auto
  with a show ?thesis by (simp add: int_strip_def)
qed

lemma all_digits_no_space: "all_digits s \<Longrightarrow> c \<in> set s \<Longrightarrow> \<not> is_int_space c"
  by (auto simp: all_digits_def list_all_iff dest: digit_val_space)

lemma py_int_str_of_int: "py_int (str_of_int i) = Some i"
proof (cases "i < 0")
  case True
  let ?d = "str_of_nat (nat (- i))"
  have d: "all_digits ?d" "?d \<noteq> []" using str_of_nat_digits by auto
  have "\<not> is_int_space (last (CHR ''-'' # ?d))" using d all_digits_no_space[OF d(1)] by simp
  moreover have "\<not> is_int_space (CHR ''-'')" by (simp add: is_int_space_def)
  ultimately have "int_strip (CHR ''-'' # ?d) = CHR ''-'' # ?d"
    by (intro int_strip_no_space) auto
  with True show ?thesis
    by (simp add: py_int_def str_of_int_def parse_nat_str_of_nat)
next
  case False
  let ?d = "str_of_nat (nat i)"
  have d: "all_digits ?d" "?d \<noteq> []" using str_of_nat_digits by auto
  then obtain c cs where s: "?d = c # cs" by (cases ?d) auto
  with d obtain v where v: "digit_val c = Some v" by (auto simp: all_digits_def)
  have "int_strip ?d = ?d"
    using d all_digits_no_space[OF d(1)] by (intro int_strip_no_space) auto
  moreover have "parse_nat (c # cs) = Some (nat i)" using parse_nat_str_of_nat[of "nat i"] s by simp
  ultimately show ?thesis using False s digit_val_sign[OF v]
    by (simp add: py_int_def str_of_int_def)
qed

lemma redis_int_str_of_int:
  "- LLONG_MAX - 1 \<le> i \<Longrightarrow> i \<le> LLONG_MAX \<Longrightarrow> redis_int (Text (str_of_int i)) = Some i"
  by (simp add: redis_int_def py_int_str_of_int)

section \<open>The store's clock and its 64-bit range\<close>

lemma before_expiry [simp]: "now < e \<Longrightarrow> now div 1000 \<le> e div (1000 :: nat)"
  by (simp add: div_le_mono)

lemma mstime_range: "0 \<le> mstime now \<and> mstime now \<le> 9223372036854775"
proof -
  have a: "0 \<le> min (int now) LLONG_MAX" by (simp add: LLONG_MAX_def)
  have b: "min (int now) LLONG_MAX \<le> 9223372036854775807" by (simp add: LLONG_MAX_def)
  from a have "0 \<le> min (int now) LLONG_MAX div 1000" by (simp add: pos_imp_zdiv_nonneg_iff)
  moreover from b have "min (int now) LLONG_MAX div 1000 \<le> 9223372036854775807 div 1000"
    by (rule zdiv_mono1) simp
  ultimately show ?thesis by (simp add: mstime_def)
qed

lemma redis_setex_fits:
  assumes "0 < ttl" "ttl * 1000 + mstime now \<le> LLONG_MAX"
  shows "redis_setex r now k ttl v = Inr (r(k \<mapsto> (v, Some (now + seconds (nat ttl)))))"
  using assms by (simp add: redis_setex_def)

lemma redis_setex_a_day:
  assumes "0 < ttl" "ttl \<le> 86400"
  shows "redis_setex r now k ttl v = Inr (r(k \<mapsto> (v, Some (now + seconds (nat ttl)))))"
proof -
  from assms(2) mstime_range[of now] have "ttl * 1000 + mstime now \<le> LLONG_MAX"
    by (simp add: LLONG_MAX_def)
  with assms(1) show ?thesis by (rule redis_setex_fits)
qed

section \<open>Rate limiter: calls in one window\<close>


lemma check_rate_limit_fresh:
  assumes "redis_get r now (rate_key ident) = None" "1 \<le> window"
    and "window * 1000 + mstime now \<le> LLONG_MAX"
  shows "check_rate_limit r now ident limit window =
           Inr (True, r(rate_key ident \<mapsto> (Text (str_of_int 1), Some (now + seconds (nat window)))))"
  using assms by (simp add: check_rate_limit_def rate_limit_decide_def redis_setex_fits)

lemma check_rate_limit_below:
  assumes "r (rate_key ident) = Some (Text (str_of_int c), Some e)" "now < e" "c < limit"
    and "- LLONG_MAX - 1 \<le> c" "c < LLONG_MAX"
  shows "check_rate_limit r now ident limit window =
           Inr (True, r(rate_key ident \<mapsto> (Text (str_of_int (c + 1)), Some e)))"
  using assms
  by (simp add: check_rate_limit_def rate_limit_decide_def redis_get_def redis_incr_def
      py_int_str_of_int redis_int_str_of_int expiry_of_def)

lemma check_rate_limit_reached:
  assumes "r (rate_key ident) = Some (Text (str_of_int c), Some e)" "now < e" "\<not> c < limit"
  shows "check_rate_limit r now ident limit window = Inr (False, r)"
  using assms
  by (simp add: check_rate_limit_def rate_limit_decide_def redis_get_def py_int_str_of_int)

lemma first_admitted_shift:
  "map (\<lambda>i. c + int i < limit) [0..<Suc n] = (c < limit) # map (\<lambda>i. c + 1 + int i < limit) [0..<n]"
proof -
  have "[0..<Suc n] = 0 # map Suc [0..<n]"
    by (simp add: upt_conv_Cons map_Suc_upt del: upt_Suc)
  then show ?thesis by (simp add: o_def add.assoc del: upt_Suc)
qed

lemma admit_seq_counting:
  assumes "r (rate_key ident) = Some (Text (str_of_int c), Some e)" "c \<le> limit"
    and "\<forall>t\<in>set ts. t < e"
    and "- LLONG_MAX - 1 \<le> c" "min limit (c + int (length ts)) \<le> LLONG_MAX"
  shows "admit_seq r ident limit window ts =
           Inr (map (\<lambda>i. c + int i < limit) [0..<length ts],
                r(rate_key ident \<mapsto> (Text (str_of_int (min limit (c + int (length ts)))), Some e)))"
  using assms
proof (induction ts arbitrary: r c)
  case Nil
  then have "r(rate_key ident \<mapsto> (Text (str_of_int c), Some e)) = r" by (simp add: fun_upd_idem)
  moreover from Nil have "min limit (c + int (length ([] :: instant list))) = c" by simp
  ultimately show ?case by (simp only: admit_seq.simps list.size upt_0 list.map)
next
  case (Cons t ts)
  from Cons.prems have t: "t < e" and ts: "\<forall>t\<in>set ts. t < e" by simp_all
  show ?case
  proof (cases "c < limit")
    case True
    let ?r' = "r(rate_key ident \<mapsto> (Text (str_of_int (c + 1)), Some e))"
    from True have le: "c + 1 \<le> limit" by simp
    have same: "c + 1 + int (length ts) = c + int (length (t # ts))" by simp
    from Cons.prems(5) have fits: "min limit (c + 1 + int (length ts)) \<le> LLONG_MAX"
      by (simp only: same)
    from le fits have room: "c < LLONG_MAX" by (simp add: min_def split: if_splits)
    from Cons.prems(4) have low: "- LLONG_MAX - 1 \<le> c + 1" by simp
    have step: "check_rate_limit r t ident limit window = Inr (True, ?r')"
      using Cons.prems(1) t True Cons.prems(4) room by (rule check_rate_limit_below)
    have r': "?r' (rate_key ident) = Some (Text (str_of_int (c + 1)), Some e)" by simp
    have ih: "admit_seq ?r' ident limit window ts =
        Inr (map (\<lambda>i. c + 1 + int i < limit) [0..<length ts],
             ?r'(rate_key ident \<mapsto> (Text (str_of_int (min limit (c + 1 + int (length ts)))), Some e)))"
      using r' le ts low fits by (rule Cons.IH)
    have upd: "?r'(rate_key ident \<mapsto> (Text (str_of_int (min limit (c + 1 + int (length ts)))), Some e))
        = r(rate_key ident \<mapsto> (Text (str_of_int (min limit (c + int (length (t # ts))))), Some e))"
      by (simp only: same fun_upd_upd)
    have bs: "map (\<lambda>i. c + int i < limit) [0..<length (t # ts)]
        = True # map (\<lambda>i. c + 1 + int i < limit) [0..<length ts]"
      using first_admitted_shift[of c limit "length ts"] True by simp
    show ?thesis
      unfolding bs upd[symmetric] by (simp only: admit_seq.simps step ih sum.case prod.case)
  next
    case False
    with Cons.prems(2) have eq: "c = limit" by simp
    from Cons.prems(5) eq have fits: "min limit (c + int (length ts)) \<le> LLONG_MAX"
      by (simp add: min_def split: if_splits)
    have step: "check_rate_limit r t ident limit window = Inr (False, r)"
      using Cons.prems(1) t False by (rule check_rate_limit_reached)
    have ih: "admit_seq r ident limit window ts =
        Inr (map (\<lambda>i. c + int i < limit) [0..<length ts],
             r(rate_key ident \<mapsto> (Text (str_of_int (min limit (c + int (length ts)))), Some e)))"
      using Cons.prems(1) Cons.prems(2) ts Cons.prems(4) fits by (rule Cons.IH)
    have upd: "r(rate_key ident \<mapsto> (Text (str_of_int (min limit (c + int (length ts)))), Some e))
        = r(rate_key ident \<mapsto> (Text (str_of_int (min limit (c + int (length (t # ts))))), Some e))"
      using eq by (simp add: min_def)
    have bs: "map (\<lambda>i. c + int i < limit) [0..<length (t # ts)]
        = False # map (\<lambda>i. c + int i < limit) [0..<length ts]"
      using first_admitted_shift[of c limit "length ts"] eq by (simp del: upt_Suc)
    show ?thesis
      unfolding bs upd[symmetric] by (simp only: admit_seq.simps step ih sum.case prod.case)
  qed
qed

lemma char_of_eqI: "(of_char c :: nat) = n \<Longrightarrow> char_of n = c"
  by (metis char_of_char)

lemma digit_char_table:
  "digit_char 0 = CHR ''0''" "digit_char 1 = CHR ''1''" "digit_char 2 = CHR ''2''"
  "digit_char 3 = CHR ''3''" "digit_char 4 = CHR ''4''" "digit_char 5 = CHR ''5''"
  "digit_char 6 = CHR ''6''" "digit_char 7 = CHR ''7''" "digit_char 8 = CHR ''8''"
  "digit_char 9 = CHR ''9''"
  unfolding digit_char_def by (rule char_of_eqI, simp)+

lemma str_of_int_digit: "0 \<le> i \<Longrightarrow> i < 10 \<Longrightarrow> str_of_int i = [digit_char (nat i)]"
  by (simp add: str_of_int_def str_of_nat.simps)

text \<open>
  Claim C2, as amended. Take a limit of at least 1 and a window of at least one second
  that the store accepts: its expiry, the window in milliseconds added to the store's
  clock, fits 64 bits, and so does the counter, which ends at \<open>min limit n\<close> after \<open>n\<close>
  calls. When the first call finds no live counter and every later call falls before the
  expiry that first call set, exactly the first \<open>limit\<close> calls are admitted, and the store
  ends with the counter at \<open>min limit n\<close> under the expiry of the first call: the refused
  calls neither increment it nor refresh its expiry.
\<close>

theorem check_rate_limit_window:
  assumes "1 \<le> limit" "1 \<le> window"
    and "window * 1000 + mstime t0 \<le> LLONG_MAX"
    and "min limit (1 + int (length ts)) \<le> LLONG_MAX"
    and "redis_get r t0 (rate_key ident) = None"
    and "\<forall>t\<in>set ts. t < t0 + seconds (nat window)"
  shows "admit_seq r ident limit window (t0 # ts) =
           Inr (first_admitted limit (Suc (length ts)),
                r(rate_key ident \<mapsto>
                  (Text (str_of_int (min limit (1 + int (length ts)))),
                   Some (t0 + seconds (nat window)))))"
proof -
  let ?e = "t0 + seconds (nat window)"
  let ?r1 = "r(rate_key ident \<mapsto> (Text (str_of_int 1), Some ?e))"
  have first: "check_rate_limit r t0 ident limit window = Inr (True, ?r1)"
    using assms(5,2,3) by (rule check_rate_limit_fresh)
  have r1: "?r1 (rate_key ident) = Some (Text (str_of_int 1), Some ?e)" by simp
  have low: "- LLONG_MAX - 1 \<le> 1" by (simp add: LLONG_MAX_def)
  have rest: "admit_seq ?r1 ident limit window ts =
      Inr (map (\<lambda>i. 1 + int i < limit) [0..<length ts],
           ?r1(rate_key ident \<mapsto> (Text (str_of_int (min limit (1 + int (length ts)))), Some ?e)))"
    using r1 assms(1,6) low assms(4) by (rule admit_seq_counting)
  have "first_admitted limit (Suc (length ts)) = True # map (\<lambda>i. 1 + int i < limit) [0..<length ts]"
    unfolding first_admitted_def using first_admitted_shift[of 0 limit "length ts"] assms(1)
    by simp
  with first rest show ?thesis by simp
qed

theorem check_rate_limit_window_witness:
  "redis_get Map.empty 0 (rate_key ''10.0.0.7:alice'') = None \<and>
   admit_seq Map.empty ''10.0.0.7:alice'' 2 300 [0, 1000000, 2000000] =
     Inr ([True, True, False],
          [rate_key ''10.0.0.7:alice'' \<mapsto> (Text ''2'', Some 300000000)])"
proof -
  have g: "redis_get Map.empty 0 (rate_key ''10.0.0.7:alice'') = None"
    by (simp add: redis_get_def)
  have h: "admit_seq Map.empty ''10.0.0.7:alice'' 2 300 (0 # [1000000, 2000000]) =
      Inr (first_admitted 2 (Suc (length [1000000, 2000000 :: nat])),
           [rate_key ''10.0.0.7:alice'' \<mapsto>
             (Text (str_of_int (min 2 (1 + int (length [1000000, 2000000 :: nat])))),
              Some (0 + seconds (nat 300)))])"
    by (rule check_rate_limit_window)
       (simp_all add: redis_get_def seconds_def mstime_def LLONG_MAX_def)
  have a: "first_admitted 2 (Suc (length [1000000, 2000000 :: nat])) = [True, True, False]"
    by (simp add: first_admitted_def upt_conv_Cons)
  have b: "str_of_int (min 2 (1 + int (length [1000000, 2000000 :: nat]))) = ''2''"
    by (simp add: str_of_int_digit digit_char_table)
  have c: "0 + seconds (nat 300) = 300000000"
    by (simp add: seconds_def)
  from g h show ?thesis by (simp only: a b c simp_thms)
qed

text \<open>
  Claim C2 as stated fails for a limit of 0: the first call of a window is admitted
  without a look at the limit, where the claim admits none. It fails for a window whose
  expiry the store cannot hold, such as \<open>2\<^sup>6\<^sup>3 - 1\<close> seconds: the first call raises. And a
  counter that has reached the store's largest integer cannot be incremented, whatever
  the limit: that call raises too.
\<close>

theorem check_rate_limit_zero_limit:
  "map_sum id fst (admit_seq Map.empty ''10.0.0.7:alice'' 0 300 [0]) = Inr [True] \<and>
   first_admitted 0 1 = [False] \<and>
   admit_seq Map.empty ''10.0.0.7:alice'' 10 9223372036854775807 [0] = Inl ResponseError \<and>
   check_rate_limit
     [rate_key ''10.0.0.7:alice'' \<mapsto> (Text (str_of_int 9223372036854775807), Some 300000000)]
     1000000 ''10.0.0.7:alice'' 9223372036854775808 300 = Inl ResponseError"
proof -
  have one: "map_sum id fst (admit_seq Map.empty ''10.0.0.7:alice'' 0 300 [0]) = Inr [True]"
    by (simp add: check_rate_limit_def rate_limit_decide_def redis_get_def redis_setex_def
        mstime_def LLONG_MAX_def)
  have two: "first_admitted 0 1 = [False]"
    by (simp add: first_admitted_def)
  have three: "admit_seq Map.empty ''10.0.0.7:alice'' 10 9223372036854775807 [0] = Inl ResponseError"
    by (simp add: check_rate_limit_def rate_limit_decide_def redis_get_def redis_setex_def
        mstime_def LLONG_MAX_def)
  have r: "redis_int (Text (str_of_int 9223372036854775807)) = Some 9223372036854775807"
    by (rule redis_int_str_of_int) (simp_all add: LLONG_MAX_def)
  have four: "check_rate_limit
     [rate_key ''10.0.0.7:alice'' \<mapsto> (Text (str_of_int 9223372036854775807), Some 300000000)]
     1000000 ''10.0.0.7:alice'' 9223372036854775808 300 = Inl ResponseError"
    by (simp add: check_rate_limit_def rate_limit_decide_def redis_get_def redis_incr_def
        py_int_str_of_int r LLONG_MAX_def)
  from one two three four show ?thesis by simp
qed

section \<open>CAPTCHA gate: one successful verification\<close>

lemma verify_captcha_false: "verify_captcha r now cid a = (False, r') \<Longrightarrow> r' = r"
  by (simp add: verify_captcha_def Let_def split: if_splits)

lemma verify_captcha_true:
  "verify_captcha r now cid a = (True, r') \<Longrightarrow> r' = redis_delete r (captcha_key cid)"
  by (simp add: verify_captcha_def Let_def split: if_splits)

lemma verify_captcha_deleted:
  "verify_captcha (redis_delete r (captcha_key cid)) now cid a =
     (False, redis_delete r (captcha_key cid))"
  by (simp add: verify_captcha_def redis_delete_def redis_get_def value_truthy_def)

text \<open>
  Claim C3. A verification that succeeds deletes the stored answer, and from then on every
  verification with the same challenge id returns false, whatever the answer and the
  instant; a verification that returns false (a mismatch, an absent id, an expired or
  empty entry) returns the store it was given.
\<close>

theorem verify_captcha_once:
  assumes "verify_captcha r now cid answer = (ok, r')"
  shows "(ok \<longrightarrow> r' = redis_delete r (captcha_key cid) \<and> r' (captcha_key cid) = None \<and>
               (\<forall>later answer'. verify_captcha r' later cid answer' = (False, r'))) \<and>
         (\<not> ok \<longrightarrow> r' = r)"
proof (cases ok)
  case True
  with assms have "r' = redis_delete r (captcha_key cid)" by (simp add: verify_captcha_true)
  with True show ?thesis by (simp add: verify_captcha_deleted) (simp add: redis_delete_def)
next
  case False
  with assms show ?thesis by (simp add: verify_captcha_false)
qed

theorem verify_captcha_once_witness:
  "verify_captcha [captcha_key ''c-1'' \<mapsto> (Text ''7'', Some 300000000)] 1000000 ''c-1'' '' 7 ''
     = (True, redis_delete [captcha_key ''c-1'' \<mapsto> (Text ''7'', Some 300000000)] (captcha_key ''c-1'')) \<and>
   verify_captcha (redis_delete [captcha_key ''c-1'' \<mapsto> (Text ''7'', Some 300000000)] (captcha_key ''c-1''))
     2000000 ''c-1'' '' 7 ''
     = (False, redis_delete [captcha_key ''c-1'' \<mapsto> (Text ''7'', Some 300000000)] (captcha_key ''c-1'')) \<and>
   verify_captcha [captcha_key ''c-1'' \<mapsto> (Text ''7'', Some 300000000)] 1000000 ''c-1'' ''8''
     = (False, [captcha_key ''c-1'' \<mapsto> (Text ''7'', Some 300000000)])"
proof -
  let ?r = "[captcha_key ''c-1'' \<mapsto> (Text ''7'', Some (300000000 :: nat))]"
  have s: "py_strip '' 7 '' = ''7''" "py_strip ''8'' = ''8''"
    by (simp_all add: py_strip_def is_space_def)
  have first: "verify_captcha ?r 1000000 ''c-1'' '' 7 '' = (True, redis_delete ?r (captcha_key ''c-1''))"
    by (simp add: verify_captcha_def redis_get_def value_truthy_def s)
  have third: "verify_captcha ?r 1000000 ''c-1'' ''8'' = (False, ?r)"
    by (simp add: verify_captcha_def redis_get_def value_truthy_def s)
  from verify_captcha_once[OF first] have
    "verify_captcha (redis_delete ?r (captcha_key ''c-1'')) 2000000 ''c-1'' '' 7 ''
       = (False, redis_delete ?r (captcha_key ''c-1''))"
    by simp
  with first third show ?thesis by simp
qed

section \<open>Tokens\<close>





lemma generate_jwt_token_payload:
  "signed_payload (generate_jwt_token u t1 t2 j) =
     Some \<lparr>p_user_id = u_id u, p_username = u_username u, p_email = u_email u,
           p_role = user_role u, p_exp = t1 div 1000000 + 86400, p_iat = t2 div 1000000,
           p_jti = j\<rparr>"
  by (simp add: signed_payload_def generate_jwt_token_def jwt_encode_def timegm_def
      seconds_def JWT_EXPIRATION_HOURS_def)



lemma verify_signed:
  assumes "signed_payload tok = Some p"
  shows "verify_jwt_token r now tok =
           (if now < seconds (p_iat p) \<or> seconds (p_exp p) \<le> now
               \<or> value_truthy (redis_get r now (blacklist_key (p_jti p)))
            then None else Some p)"
  using assms
  by (auto simp: signed_payload_def verify_jwt_token_def jwt_decode_def
      split: token.splits if_splits)

lemma verify_generated_token:
  assumes "\<not> value_truthy (redis_get r now (blacklist_key j))"
    and "seconds (t2 div 1000000) \<le> now" "now < seconds (t1 div 1000000 + 86400)"
  shows "verify_jwt_token r now (generate_jwt_token u t1 t2 j) =
           Some \<lparr>p_user_id = u_id u, p_username = u_username u, p_email = u_email u,
                 p_role = user_role u, p_exp = t1 div 1000000 + 86400, p_iat = t2 div 1000000,
                 p_jti = j\<rparr>"
  using assms by (simp add: verify_signed[OF generate_jwt_token_payload])

lemma generate_jwt_token_lifetime:
  "signed_payload (generate_jwt_token u t1 t2 j) = Some p \<Longrightarrow>
     int (p_exp p) - int (p_iat p) = 86400 - (int (t2 div 1000000) - int (t1 div 1000000))"
  by (auto simp: generate_jwt_token_payload)

text \<open>
  Claim C5. Verifying a fresh token gives back the account's id, name, email and role
  (\<open>verify_generated_token\<close>). The lifetime \<^verbatim>\<open>exp - iat\<close> is 24 hours only when the two
  clock readings of \<^verbatim>\<open>generate_jwt_token\<close> fall into the same second
  (\<open>generate_jwt_token_lifetime\<close>): with the readings 0.999999 s and 1.000000 s the
  verified token has \<^verbatim>\<open>exp - iat = 86399\<close>.
\<close>

theorem generate_jwt_token_two_clock_reads:
  "map_option (\<lambda>p. (p_user_id p, p_username p, p_email p, p_role p, int (p_exp p) - int (p_iat p)))
     (verify_jwt_token Map.empty 2000000 (generate_jwt_token alice 999999 1000000 ''jti-1''))
   = Some (''17'', ''alice'', ''alice@example.com'', ''user'', 86399)"
  by (simp add: verify_jwt_token_def generate_jwt_token_def jwt_encode_def jwt_decode_def
      timegm_def seconds_def JWT_EXPIRATION_HOURS_def redis_get_def value_truthy_def alice_def)

section \<open>Risk score\<close>

text \<open>
  Claim C6, as amended. With an address that is a string, the score is the sum of 10 when
  the address text starts with \<^verbatim>\<open>127.\<close> or \<^verbatim>\<open>192.168.\<close>, 20 when the fingerprint is
  absent or empty, 30 when the attempt failed, and 15 when the hour is below 6 or above
  22; it lies in \<open>[0, 100]\<close> and is a function of these inputs. An address that is
  \<^verbatim>\<open>None\<close> raises \<^verbatim>\<open>AttributeError\<close>.
\<close>

theorem calculate_risk_score_sum:
  "(let total = (if startswith ip ''127.'' \<or> startswith ip ''192.168.'' then 10 else 0)
              + (if truthy (device_fingerprint ci) then 0 else 20)
              + (if success then 0 else 30)
              + (if hour < 6 \<or> 22 < hour then 15 else (0 :: int))
    in calculate_risk_score (ci\<lparr>ip_address := Some ip\<rparr>) success hour = Inr total
       \<and> 0 \<le> total \<and> total \<le> 100)
   \<and> calculate_risk_score (ci\<lparr>ip_address := None\<rparr>) success hour = Inl AttributeError"
  by (simp add: calculate_risk_score_def Let_def)

text \<open>
  Claim C6 as stated fails at the hour 22, which lies outside \<open>[6, 22)\<close> and adds
  nothing in the code, and at the private-range address \<^verbatim>\<open>10.0.0.1\<close>, which the code
  does not count.
\<close>

theorem calculate_risk_score_not_spec:
  "calculate_risk_score
     \<lparr>ip_address = Some ''8.8.8.8'', user_agent = ''app'', timestamp = 0, device_id = None,
      app_version = None, platform = None, device_fingerprint = Some ''f00d''\<rparr> True 22 = Inr 0
   \<and> spec_risk_score False False False 22 = 15
   \<and> calculate_risk_score
     \<lparr>ip_address = Some ''10.0.0.1'', user_agent = ''app'', timestamp = 0, device_id = None,
      app_version = None, platform = None, device_fingerprint = Some ''f00d''\<rparr> True 12 = Inr 0
   \<and> spec_risk_score True False False 12 = 10"
  by (simp add: calculate_risk_score_def spec_risk_score_def startswith_def truthy_def)

section \<open>Login: what one attempt does to the accounts\<close>

lemma log_auth_event_frame [simp]:
  "test_users (log_auth_event b rq t h uid ev s ci) = test_users b"
  "redis_client (log_auth_event b rq t h uid ev s ci) = redis_client b"
  by (simp_all add: log_auth_event_def Let_def split: sum.splits)

lemma failure_fields [simp]:
  "rs_status (failure code msg err) = code"
  "rs_success (failure code msg err) = False"
  "rs_message (failure code msg err) = msg"
  "rs_error_code (failure code msg err) = Some err"
  "rs_remaining_attempts (failure code msg err) = None"
  "rs_unlock_time (failure code msg err) = None"
  "rs_captcha (failure code msg err) = None"
  by (simp_all add: failure_def)

lemma captcha_rejection_frame:
  assumes "captcha_rejection e msg err b = (rs, b')"
  shows "test_users b' = test_users b \<and> \<not> rs_success rs \<and> rs_status rs \<noteq> 401"
  using assms
  by (auto simp: captcha_rejection_def internal_error_def split: sum.splits prod.splits)

lemma login_success_effect:
  assumes "login_success e rq ci u b = (rs, b')"
  shows "test_users b' = reset_failed_login (test_users b) (u_id u) (e_now e) \<and> rs_success rs
         \<and> rs_status rs = 200 \<and> rs_error_code rs = None"
  using assms
  by (auto simp: login_success_def Let_def redis_setex_a_day SESSION_TIMEOUT_def)

lemma login_verify_password_effect:
  assumes "login_verify_password chk e rq ci pw u b = (rs, b')"
  shows "(\<not> chk (password_hash u) pw \<and>
            test_users b' = record_failed_login (test_users b) (u_id u) (e_now e) \<and>
            failed_password_response rs \<and> \<not> rs_success rs)
         \<or> (chk (password_hash u) pw \<and>
            test_users b' = reset_failed_login (test_users b) (u_id u) (e_now e) \<and>
            rs_success rs \<and> rs_error_code rs = None \<and> \<not> failed_password_response rs)"
proof (cases "chk (password_hash u) pw")
  case True
  with assms have "login_success e rq ci u b = (rs, b')"
    by (simp add: login_verify_password_def)
  from login_success_effect[OF this] True show ?thesis
    by (simp add: failed_password_response_def)
next
  case False
  with assms show ?thesis
    by (auto simp: login_verify_password_def Let_def failed_password_response_def
        split: if_splits)
qed

lemma login_captcha_gate_effect:
  assumes "login_captcha_gate chk e rq ci pw u b = (rs, b')"
  shows "(test_users b' = test_users b \<and> \<not> rs_success rs \<and> \<not> failed_password_response rs)
         \<or> (\<not> chk (password_hash u) pw \<and>
            test_users b' = record_failed_login (test_users b) (u_id u) (e_now e) \<and>
            failed_password_response rs \<and> \<not> rs_success rs)
         \<or> (chk (password_hash u) pw \<and>
            test_users b' = reset_failed_login (test_users b) (u_id u) (e_now e) \<and>
            rs_success rs \<and> rs_error_code rs = None \<and> \<not> failed_password_response rs)"
proof -
  have rej: "\<And>msg err c. captcha_rejection e msg err c = (rs, b') \<Longrightarrow> test_users c = test_users b
      \<Longrightarrow> test_users b' = test_users b \<and> \<not> rs_success rs \<and> \<not> failed_password_response rs"
    by (drule captcha_rejection_frame) (simp add: failed_password_response_def)
  have pw: "\<And>c. login_verify_password chk e rq ci pw u c = (rs, b') \<Longrightarrow> test_users c = test_users b
      \<Longrightarrow> ?thesis"
    by (drule login_verify_password_effect) auto
  show ?thesis
  proof (cases "failed_login_attempts u \<ge> CAPTCHA_THRESHOLD")
    case False
    with assms have "login_verify_password chk e rq ci pw u b = (rs, b')"
      by (simp add: login_captcha_gate_def)
    then show ?thesis by (rule pw) simp
  next
    case True
    show ?thesis
    proof (cases "json_captcha_id rq")
      case None
      with assms True show ?thesis by (auto simp: login_captcha_gate_def dest: rej)
    next
      case (Some cid)
      note cid = this
      show ?thesis
      proof (cases "json_captcha_answer rq")
        case None
        with assms True cid show ?thesis by (auto simp: login_captcha_gate_def dest: rej)
      next
        case (Some answer)
        show ?thesis
        proof (cases "cid = [] \<or> answer = []")
          case True
          with assms \<open>failed_login_attempts u \<ge> CAPTCHA_THRESHOLD\<close> cid Some show ?thesis
            by (auto simp: login_captcha_gate_def dest: rej)
        next
          case False
          obtain ok r' where v: "verify_captcha (redis_client b) (e_now e) cid answer = (ok, r')"
            by (cases "verify_captcha (redis_client b) (e_now e) cid answer")
          show ?thesis
          proof (cases ok)
            case True
            with assms \<open>failed_login_attempts u \<ge> CAPTCHA_THRESHOLD\<close> cid Some False v
            have "login_verify_password chk e rq ci pw u (b\<lparr>redis_client := r'\<rparr>) = (rs, b')"
              by (simp add: login_captcha_gate_def)
            then show ?thesis by (rule pw) simp
          next
            case ko: False
            with assms \<open>failed_login_attempts u \<ge> CAPTCHA_THRESHOLD\<close> cid Some False v
            have "captcha_rejection e ''Invalid CAPTCHA'' ''INVALID_CAPTCHA''
                    (log_auth_event (b\<lparr>redis_client := r'\<rparr>) rq (e_now e) (e_local_hour e)
                       (u_id u) ''login_failed_captcha'' False ci) = (rs, b')"
              by (simp add: login_captcha_gate_def)
            from rej[OF this] show ?thesis by simp
          qed
        qed
      qed
    qed
  qed
qed

lemma login_status_check_effect:
  assumes "login_status_check chk e rq ci pw u b = (rs, b')"
  shows "(test_users b' = test_users b \<and> \<not> rs_success rs \<and> \<not> failed_password_response rs)
         \<or> (is_active u \<and> \<not> is_locked u \<and>
             (\<not> chk (password_hash u) pw \<and>
                test_users b' = record_failed_login (test_users b) (u_id u) (e_now e) \<and>
                failed_password_response rs \<and> \<not> rs_success rs
              \<or> chk (password_hash u) pw \<and>
                test_users b' = reset_failed_login (test_users b) (u_id u) (e_now e) \<and>
                rs_success rs \<and> rs_error_code rs = None \<and> \<not> failed_password_response rs))"
proof (cases "is_active u \<and> \<not> is_locked u")
  case True
  with assms have "login_captcha_gate chk e rq ci pw u b = (rs, b')"
    by (simp add: login_status_check_def)
  from login_captcha_gate_effect[OF this] True show ?thesis by auto
next
  case False
  with assms show ?thesis
    by (auto simp: login_status_check_def failed_password_response_def split: if_splits)
qed

lemma login_effect:
  assumes "login chk e rq b = (rs, b')"
  shows "(test_users b' = test_users b \<and> \<not> rs_success rs \<and> \<not> failed_password_response rs)
         \<or> (\<exists>un pw u. json_username rq = Some un \<and> json_password rq = Some pw \<and>
               find_user (test_users b) (login_name un) = Some u \<and> is_active u \<and> \<not> is_locked u \<and>
               (\<not> chk (password_hash u) pw \<and>
                  test_users b' = record_failed_login (test_users b) (u_id u) (e_now e) \<and>
                  failed_password_response rs \<and> \<not> rs_success rs
                \<or> chk (password_hash u) pw \<and>
                  test_users b' = reset_failed_login (test_users b) (u_id u) (e_now e) \<and>
                  rs_success rs \<and> rs_error_code rs = None \<and> \<not> failed_password_response rs))"
proof -
  let ?unchanged = "test_users b' = test_users b \<and> \<not> rs_success rs \<and> \<not> failed_password_response rs"
  show ?thesis
  proof (cases "\<exists>un pw. json_username rq = Some un \<and> json_password rq = Some pw \<and> un \<noteq> [] \<and> pw \<noteq> []")
    case False
    with assms have ?unchanged
      by (auto simp: login_def failed_password_response_def split: option.splits if_splits)
    then show ?thesis by simp
  next
    case True
    then obtain un pw where rq: "json_username rq = Some un" "json_password rq = Some pw"
        "un \<noteq> []" "pw \<noteq> []" by auto
    let ?ci = "get_client_info rq (e_now e)"
    let ?cid = "format_ip (ip_address ?ci) @ '':'' @ py_lower (py_strip un)"
    show ?thesis
    proof (cases "check_rate_limit (redis_client b) (e_now e) ?cid 10 300")
      case (Inl x)
      with assms rq have ?unchanged
        by (auto simp: login_def Let_def internal_error_def failed_password_response_def)
      then show ?thesis by simp
    next
      case (Inr p)
      obtain ok r' where p: "p = (ok, r')" by (cases p)
      show ?thesis
      proof (cases ok)
        case False
        with assms rq Inr p have ?unchanged
          by (auto simp: login_def Let_def failed_password_response_def)
        then show ?thesis by simp
      next
        case True
        show ?thesis
        proof (cases "find_user (test_users b) (py_lower (py_strip un))")
          case None
          with assms rq Inr p True have ?unchanged
            by (auto simp: login_def Let_def failed_password_response_def)
          then show ?thesis by simp
        next
          case (Some u)
          with assms rq Inr p True
          have "login_status_check chk e rq ?ci pw u (b\<lparr>redis_client := r'\<rparr>) = (rs, b')"
            by (simp add: login_def Let_def)
          from login_status_check_effect[OF this] rq Some show ?thesis
            by (auto simp: login_name_def)
        qed
      qed
    qed
  qed
qed

section \<open>Accounts after an update\<close>

lemma find_map_preserving:
  assumes "\<And>x. P (f x) = P x"
  shows "find P (map f xs) = map_option f (find P xs)"
  by (induction xs) (simp_all add: assms)

lemma find_user_record_failed_login:
  assumes "find_user rows name = Some u"
  shows "find_user (record_failed_login rows (u_id u) t) name =
           Some (u\<lparr>failed_login_attempts := failed_login_attempts u + 1,
                   last_login_attempt := Some t,
                   is_locked := (failed_login_attempts u + 1 \<ge> MAX_LOGIN_ATTEMPTS)\<rparr>)"
proof -
  let ?f = "\<lambda>x. if u_id x = u_id u
              then x\<lparr>failed_login_attempts := failed_login_attempts x + 1,
                     last_login_attempt := Some t,
                     is_locked := (failed_login_attempts x + 1 \<ge> MAX_LOGIN_ATTEMPTS)\<rparr>
              else x"
  have "find (\<lambda>x. u_username x = name \<or> u_email x = name) (map ?f rows) =
      map_option ?f (find (\<lambda>x. u_username x = name \<or> u_email x = name) rows)"
    by (rule find_map_preserving) simp
  with assms show ?thesis
    by (simp add: find_user_def record_failed_login_def)
qed

lemma find_user_reset_failed_login:
  assumes "find_user rows name = Some u"
  shows "find_user (reset_failed_login rows (u_id u) t) name =
           Some (u\<lparr>failed_login_attempts := 0, last_login_attempt := Some t, is_locked := False\<rparr>)"
proof -
  let ?f = "\<lambda>x. if u_id x = u_id u
              then x\<lparr>failed_login_attempts := 0, last_login_attempt := Some t, is_locked := False\<rparr>
              else x"
  have "find (\<lambda>x. u_username x = name \<or> u_email x = name) (map ?f rows) =
      map_option ?f (find (\<lambda>x. u_username x = name \<or> u_email x = name) rows)"
    by (rule find_map_preserving) simp
  with assms show ?thesis
    by (simp add: find_user_def reset_failed_login_def)
qed

lemma reset_failed_login_rows:
  assumes "row \<in> set (reset_failed_login rows uid t)" "u_id row = uid"
  shows "failed_login_attempts row = 0 \<and> \<not> is_locked row"
proof -
  from assms(1) obtain x where x: "x \<in> set rows"
    and row: "row = (if u_id x = uid
                     then x\<lparr>failed_login_attempts := 0, last_login_attempt := Some t, is_locked := False\<rparr>
                     else x)"
    by (auto simp: reset_failed_login_def)
  show ?thesis
  proof (cases "u_id x = uid")
    case True
    with row show ?thesis by simp
  next
    case False
    with row assms(2) show ?thesis by simp
  qed
qed

section \<open>Consecutive failed password logins\<close>

lemma login_run_failed_passwords:
  assumes "login_run chk b atts = (rss, b')"
    and "list_all (\<lambda>(e, rq, r). json_username rq = Some un) atts"
    and "list_all failed_password_response rss"
    and "find_user (test_users b) (login_name un) = Some u"
    and "failed_login_attempts u = int k" "is_locked u = (5 \<le> k)"
  shows "\<exists>u'. find_user (test_users b') (login_name un) = Some u' \<and>
              failed_login_attempts u' = int (k + length atts) \<and>
              is_locked u' = (5 \<le> k + length atts) \<and> (atts \<noteq> [] \<longrightarrow> k + length atts \<le> 5)"
  using assms
proof (induction atts arbitrary: b rss u k)
  case Nil
  then show ?case by simp
next
  case (Cons a atts)
  obtain e rq r where a: "a = (e, rq, r)" by (cases a)
  obtain rs b1 where step: "login chk e rq (b\<lparr>redis_client := r\<rparr>) = (rs, b1)"
    by (cases "login chk e rq (b\<lparr>redis_client := r\<rparr>)")
  obtain rss1 where rest: "login_run chk b1 atts = (rss1, b')" and rss: "rss = rs # rss1"
    using Cons.prems(1) a step by (auto split: prod.splits)
  from Cons.prems(2) a have un: "json_username rq = Some un"
    and uns: "list_all (\<lambda>(e, rq, r). json_username rq = Some un) atts" by simp_all
  from Cons.prems(3) rss have f: "failed_password_response rs"
    and fs: "list_all failed_password_response rss1" by simp_all
  from login_effect[OF step] f un Cons.prems(4)
  have unlocked: "\<not> is_locked u"
    and upd: "test_users b1 = record_failed_login (test_users b) (u_id u) (e_now e)"
    by auto
  let ?u1 = "u\<lparr>failed_login_attempts := failed_login_attempts u + 1,
                last_login_attempt := Some (e_now e),
                is_locked := (failed_login_attempts u + 1 \<ge> MAX_LOGIN_ATTEMPTS)\<rparr>"
  have found: "find_user (test_users b1) (login_name un) = Some ?u1"
    unfolding upd using Cons.prems(4) by (rule find_user_record_failed_login)
  from unlocked Cons.prems(6) have k: "k < 5" by simp
  have c1: "failed_login_attempts ?u1 = int (Suc k)" using Cons.prems(5) by simp
  have l1: "is_locked ?u1 = (5 \<le> Suc k)"
    using Cons.prems(5) by (simp add: MAX_LOGIN_ATTEMPTS_def)
  from Cons.IH[OF rest uns fs found c1 l1] obtain u' where
    u': "find_user (test_users b') (login_name un) = Some u'"
      "failed_login_attempts u' = int (Suc k + length atts)"
      "is_locked u' = (5 \<le> Suc k + length atts)"
      "atts \<noteq> [] \<longrightarrow> Suc k + length atts \<le> 5"
    by blast
  have "k + length (a # atts) \<le> 5"
  proof (cases atts)
    case Nil
    with k show ?thesis by simp
  next
    case (Cons x xs)
    with u'(4) show ?thesis by simp
  qed
  with u' show ?case by simp
qed

section \<open>Login: reaching the password check\<close>

lemma login_captcha_gate_passed:
  assumes "passes_captcha_gate e rq u (redis_client b)"
  shows "\<exists>r. login_captcha_gate chk e rq ci pw u b =
               login_verify_password chk e rq ci pw u (b\<lparr>redis_client := r\<rparr>)"
proof (cases "failed_login_attempts u < CAPTCHA_THRESHOLD")
  case True
  then have "login_captcha_gate chk e rq ci pw u b =
      login_verify_password chk e rq ci pw u (b\<lparr>redis_client := redis_client b\<rparr>)"
    by (simp add: login_captcha_gate_def)
  then show ?thesis by blast
next
  case False
  with assms obtain cid answer where c: "json_captcha_id rq = Some cid"
      "json_captcha_answer rq = Some answer" "cid \<noteq> []" "answer \<noteq> []"
      "fst (verify_captcha (redis_client b) (e_now e) cid answer)"
    by (auto simp: passes_captcha_gate_def split: option.splits)
  obtain r where v: "verify_captcha (redis_client b) (e_now e) cid answer = (True, r)"
    using c(5) by (cases "verify_captcha (redis_client b) (e_now e) cid answer") auto
  from False c v have "login_captcha_gate chk e rq ci pw u b =
      login_verify_password chk e rq ci pw u (b\<lparr>redis_client := r\<rparr>)"
    by (simp add: login_captcha_gate_def)
  then show ?thesis by blast
qed

lemma login_not_found:
  assumes "json_username rq = Some un" "un \<noteq> []" "json_password rq = Some pw" "pw \<noteq> []"
    and "check_rate_limit (redis_client b) (e_now e) (login_client_id rq e un) 10 300 = Inr (True, r')"
    and "find_user (test_users b) (login_name un) = None"
  shows "fst (login chk e rq b) = failure 401 ''Invalid credentials'' ''INVALID_CREDENTIALS''"
    and "test_users (snd (login chk e rq b)) = test_users b"
  using assms by (simp_all add: login_def Let_def login_client_id_def login_name_def)

lemma login_reaches_password_check:
  assumes "json_username rq = Some un" "un \<noteq> []" "json_password rq = Some pw" "pw \<noteq> []"
    and "check_rate_limit (redis_client b) (e_now e) (login_client_id rq e un) 10 300 = Inr (True, r')"
    and "find_user (test_users b) (login_name un) = Some u" "is_active u" "\<not> is_locked u"
    and "passes_captcha_gate e rq u r'"
  shows "\<exists>r. login chk e rq b =
               login_verify_password chk e rq (get_client_info rq (e_now e)) pw u
                 (b\<lparr>redis_client := r\<rparr>)"
proof -
  let ?ci = "get_client_info rq (e_now e)"
  from assms(1-8) have "login chk e rq b =
      login_captcha_gate chk e rq ?ci pw u (b\<lparr>redis_client := r'\<rparr>)"
    by (simp add: login_def Let_def login_client_id_def login_name_def login_status_check_def)
  moreover from assms(9) have "passes_captcha_gate e rq u (redis_client (b\<lparr>redis_client := r'\<rparr>))"
    by simp
  from login_captcha_gate_passed[OF this, of chk ?ci pw]
  obtain r where "login_captcha_gate chk e rq ?ci pw u (b\<lparr>redis_client := r'\<rparr>) =
      login_verify_password chk e rq ?ci pw u (b\<lparr>redis_client := r\<rparr>)"
    by auto
  ultimately show ?thesis by auto
qed

lemma login_wrong_password:
  assumes "json_username rq = Some un" "un \<noteq> []" "json_password rq = Some pw" "pw \<noteq> []"
    and "check_rate_limit (redis_client b) (e_now e) (login_client_id rq e un) 10 300 = Inr (True, r')"
    and "find_user (test_users b) (login_name un) = Some u" "is_active u" "\<not> is_locked u"
    and "passes_captcha_gate e rq u r'"
    and "\<not> chk (password_hash u) pw"
  shows "fst (login chk e rq b) = wrong_password_response u"
    and "test_users (snd (login chk e rq b)) = record_failed_login (test_users b) (u_id u) (e_now e)"
proof -
  from login_reaches_password_check[OF assms(1-9), of chk] obtain r where
    l: "login chk e rq b = login_verify_password chk e rq (get_client_info rq (e_now e)) pw u
          (b\<lparr>redis_client := r\<rparr>)" by blast
  from assms(10) show "fst (login chk e rq b) = wrong_password_response u"
    unfolding l by (simp add: login_verify_password_def Let_def wrong_password_response_def)
  from assms(10) show "test_users (snd (login chk e rq b)) =
      record_failed_login (test_users b) (u_id u) (e_now e)"
    unfolding l by (simp add: login_verify_password_def Let_def)
qed

lemma login_right_password:
  assumes "json_username rq = Some un" "un \<noteq> []" "json_password rq = Some pw" "pw \<noteq> []"
    and "check_rate_limit (redis_client b) (e_now e) (login_client_id rq e un) 10 300 = Inr (True, r')"
    and "find_user (test_users b) (login_name un) = Some u" "is_active u" "\<not> is_locked u"
    and "passes_captcha_gate e rq u r'"
    and "chk (password_hash u) pw"
  shows "rs_success (fst (login chk e rq b))"
proof -
  from login_reaches_password_check[OF assms(1-9), of chk] obtain r where
    l: "login chk e rq b = login_verify_password chk e rq (get_client_info rq (e_now e)) pw u
          (b\<lparr>redis_client := r\<rparr>)" by blast
  obtain rs b' where s: "login_success e rq (get_client_info rq (e_now e)) u (b\<lparr>redis_client := r\<rparr>) = (rs, b')"
    by (cases "login_success e rq (get_client_info rq (e_now e)) u (b\<lparr>redis_client := r\<rparr>)")
  from login_success_effect[OF s] assms(10) s show ?thesis
    unfolding l by (simp add: login_verify_password_def)
qed

section \<open>Evaluating concrete logins\<close>

lemma name_alice: "login_name ''alice'' = ''alice''"
  by (simp add: login_name_def py_strip_def py_lower_def is_space_def lower_char_def)

lemmas login_eval =
  login_def Let_def env0_def request_of_def backend_of_def alice_def check_plain_def
  py_strip_def py_lower_def is_space_def lower_char_def get_client_info_def format_ip_def
  check_rate_limit_def rate_limit_decide_def rate_key_def redis_get_def redis_setex_def
  mstime_def LLONG_MAX_def find_user_def login_status_check_def login_captcha_gate_def CAPTCHA_THRESHOLD_def
  login_verify_password_def MAX_LOGIN_ATTEMPTS_def record_failed_login_def
  log_auth_event_def calculate_risk_score_def startswith_def truthy_def
  captcha_store_def captcha_key_def verify_captcha_def value_truthy_def redis_delete_def
  failure_def failed_password_response_def

section \<open>Claims about the login flow\<close>

text \<open>
  Claim C1. An account starts with no failed attempts and unlocked. After \<open>N\<close> consecutive
  login attempts under its name that all end in a failed password check, the account
  has \<open>failed_login_attempts = N\<close> and is locked exactly when \<open>N\<close> has reached 5; no
  sixth such attempt exists, since a locked account is turned away before the password
  check.
\<close>

theorem failed_logins_count_and_lock:
  assumes "find_user (test_users b) (login_name un) = Some u"
    and "failed_login_attempts u = 0" "\<not> is_locked u"
    and "login_run chk b atts = (rss, b')"
    and "list_all (\<lambda>(e, rq, r). json_username rq = Some un) atts"
    and "list_all failed_password_response rss"
  shows "\<exists>u'. find_user (test_users b') (login_name un) = Some u' \<and>
              failed_login_attempts u' = int (length atts) \<and>
              is_locked u' = (5 \<le> length atts) \<and> length atts \<le> 5"
proof -
  from assms(2,3) have "failed_login_attempts u = int 0" "is_locked u = (5 \<le> (0 :: nat))"
    by simp_all
  from login_run_failed_passwords[OF assms(4,5,6,1) this] show ?thesis
    by (cases atts) auto
qed

theorem failed_logins_count_and_lock_witness:
  "list_all failed_password_response
     (fst (login_run check_plain (backend_of [alice] Map.empty) five_attempts)) \<and>
   (\<exists>u'. find_user (test_users (snd (login_run check_plain (backend_of [alice] Map.empty)
                                      five_attempts))) (login_name ''alice'') = Some u' \<and>
         failed_login_attempts u' = 5 \<and> is_locked u')"
proof -
  let ?run = "login_run check_plain (backend_of [alice] Map.empty) five_attempts"
  have failed: "list_all failed_password_response (fst ?run)"
    by (simp add: five_attempts_def login_eval)
  have found: "find_user (test_users (backend_of [alice] Map.empty)) (login_name ''alice'') = Some alice"
    by (simp add: backend_of_def find_user_def name_alice) (simp add: alice_def)
  have fresh: "failed_login_attempts alice = 0" "\<not> is_locked alice"
    by (simp_all add: alice_def)
  have names: "list_all (\<lambda>(e, rq, r). json_username rq = Some ''alice'') five_attempts"
    by (simp add: five_attempts_def request_of_def)
  have run: "?run = (fst ?run, snd ?run)" by simp
  from failed_logins_count_and_lock[OF found fresh run names failed] failed show ?thesis
    by (simp add: five_attempts_def)
qed

text \<open>
  Claim C7, as amended. Once the rate limiter has admitted the call: a name that matches
  no account is answered with status 401, message \<^verbatim>\<open>Invalid credentials\<close> and error code
  \<^verbatim>\<open>INVALID_CREDENTIALS\<close>; a wrong password for an active, unlocked account that is
  through the CAPTCHA gate is answered with the same status, message and code when fewer
  than 4 failures were on record, but with the field \<^verbatim>\<open>remaining_attempts\<close> added, and
  with \<^verbatim>\<open>ACCOUNT_LOCKED\<close> when this failure is the fifth.
\<close>

theorem invalid_credentials_responses:
  assumes "json_username rq = Some un" "un \<noteq> []" "json_password rq = Some pw" "pw \<noteq> []"
    and "check_rate_limit (redis_client b) (e_now e) (login_client_id rq e un) 10 300
           = Inr (True, r')"
  shows "(find_user (test_users b) (login_name un) = None \<longrightarrow>
            fst (login chk e rq b) = failure 401 ''Invalid credentials'' ''INVALID_CREDENTIALS'') \<and>
         (\<forall>u. find_user (test_users b) (login_name un) = Some u \<and> is_active u \<and> \<not> is_locked u \<and>
               passes_captcha_gate e rq u r' \<and> \<not> chk (password_hash u) pw \<longrightarrow>
            fst (login chk e rq b) =
              (if failed_login_attempts u + 1 \<ge> MAX_LOGIN_ATTEMPTS
               then failure 401 ''Account locked due to too many failed attempts''
                      ''ACCOUNT_LOCKED''
               else (failure 401 ''Invalid credentials'' ''INVALID_CREDENTIALS'')
                      \<lparr>rs_remaining_attempts :=
                         Some (MAX_LOGIN_ATTEMPTS - (failed_login_attempts u + 1))\<rparr>))"
proof (intro conjI impI allI)
  assume "find_user (test_users b) (login_name un) = None"
  with assms show "fst (login chk e rq b) = failure 401 ''Invalid credentials'' ''INVALID_CREDENTIALS''"
    by (rule login_not_found)
next
  fix u
  assume u: "find_user (test_users b) (login_name un) = Some u \<and> is_active u \<and> \<not> is_locked u \<and>
             passes_captcha_gate e rq u r' \<and> \<not> chk (password_hash u) pw"
  from u have u1: "find_user (test_users b) (login_name un) = Some u" and u2: "is_active u"
    and u3: "\<not> is_locked u" and u4: "passes_captcha_gate e rq u r'"
    and u5: "\<not> chk (password_hash u) pw" by simp_all
  have "fst (login chk e rq b) = wrong_password_response u"
    using assms u1 u2 u3 u4 u5 by (rule login_wrong_password(1))
  then show "fst (login chk e rq b) =
      (if failed_login_attempts u + 1 \<ge> MAX_LOGIN_ATTEMPTS
       then failure 401 ''Account locked due to too many failed attempts'' ''ACCOUNT_LOCKED''
       else (failure 401 ''Invalid credentials'' ''INVALID_CREDENTIALS'')
              \<lparr>rs_remaining_attempts := Some (MAX_LOGIN_ATTEMPTS - (failed_login_attempts u + 1))\<rparr>)"
    by (simp add: wrong_password_response_def)
qed

lemma admitted_on_empty_store:
  "check_rate_limit (redis_client (backend_of rows Map.empty)) (e_now env0) cid 10 300 =
     Inr (True, [rate_key cid \<mapsto> (Text (str_of_int 1), Some (e_now env0 + seconds (nat 300)))])"
  using check_rate_limit_fresh[of Map.empty "e_now env0" cid 300 10] mstime_range[of "e_now env0"]
  by (simp add: backend_of_def redis_get_def LLONG_MAX_def)

theorem invalid_credentials_responses_witness:
  "fst (login check_plain env0 (request_of ''ghost'' ''guess'' None None)
          (backend_of [alice] Map.empty))
     = failure 401 ''Invalid credentials'' ''INVALID_CREDENTIALS'' \<and>
   fst (login check_plain env0 (request_of ''alice'' ''guess'' None None)
          (backend_of [alice] Map.empty))
     = (failure 401 ''Invalid credentials'' ''INVALID_CREDENTIALS'')
         \<lparr>rs_remaining_attempts := Some 4\<rparr>"
proof -
  let ?b = "backend_of [alice] Map.empty"
  let ?ghost = "request_of ''ghost'' ''guess'' None None"
  let ?wrong = "request_of ''alice'' ''guess'' None None"
  have name_ghost: "login_name ''ghost'' = ''ghost''"
    by (simp add: login_name_def py_strip_def py_lower_def is_space_def lower_char_def)
  have g: "find_user (test_users ?b) (login_name ''ghost'') = None"
    by (simp add: backend_of_def find_user_def name_ghost alice_def)
  have a: "find_user (test_users ?b) (login_name ''alice'') = Some alice \<and> is_active alice \<and>
      \<not> is_locked alice \<and>
      passes_captcha_gate env0 ?wrong alice
        [rate_key (login_client_id ?wrong env0 ''alice'') \<mapsto>
           (Text (str_of_int 1), Some (e_now env0 + seconds (nat 300)))] \<and>
      \<not> check_plain (password_hash alice) ''guess''"
    by (simp add: backend_of_def find_user_def name_alice passes_captcha_gate_def
        CAPTCHA_THRESHOLD_def check_plain_def) (simp add: alice_def)
  have one: "fst (login check_plain env0 ?ghost ?b)
      = failure 401 ''Invalid credentials'' ''INVALID_CREDENTIALS''"
    using invalid_credentials_responses[of ?ghost "''ghost''" "''guess''" ?b env0 _ check_plain,
        OF _ _ _ _ admitted_on_empty_store] g
    by (simp add: request_of_def)
  have two: "fst (login check_plain env0 ?wrong ?b)
      = (failure 401 ''Invalid credentials'' ''INVALID_CREDENTIALS'')\<lparr>rs_remaining_attempts := Some 4\<rparr>"
    using invalid_credentials_responses[of ?wrong "''alice''" "''guess''" ?b env0 _ check_plain,
        OF _ _ _ _ admitted_on_empty_store] a
    by (simp add: request_of_def MAX_LOGIN_ATTEMPTS_def) (simp add: alice_def)
  from one two show ?thesis by simp
qed

text \<open>
  Claim C7 as stated fails: the answer to a wrong password carries
  \<^verbatim>\<open>remaining_attempts\<close>, the answer to an unknown name does not, so the two differ; and
  the fifth wrong password is answered with \<^verbatim>\<open>ACCOUNT_LOCKED\<close>, not with
  \<^verbatim>\<open>INVALID_CREDENTIALS\<close>.
\<close>

theorem invalid_credentials_distinguishable:
  "fst (login check_plain env0 (request_of ''ghost'' ''guess'' None None)
          (backend_of [alice] Map.empty))
     \<noteq> fst (login check_plain env0 (request_of ''alice'' ''guess'' None None)
              (backend_of [alice] Map.empty)) \<and>
   rs_remaining_attempts
     (fst (login check_plain env0 (request_of ''ghost'' ''guess'' None None)
             (backend_of [alice] Map.empty))) = None \<and>
   rs_remaining_attempts
     (fst (login check_plain env0 (request_of ''alice'' ''guess'' None None)
             (backend_of [alice] Map.empty))) = Some 4 \<and>
   rs_error_code
     (fst (login check_plain env0 (request_of ''alice'' ''guess'' (Some ''c-1'') (Some ''7''))
             (backend_of [alice\<lparr>failed_login_attempts := 4\<rparr>] captcha_store)))
     = Some ''ACCOUNT_LOCKED''"
  by (simp add: login_eval)

text \<open>
  Claim C8. A login that succeeds has found the account under the request's name and has
  run the reset: afterwards the account has \<open>failed_login_attempts = 0\<close> and is not
  locked, and so has every row with its id, whatever these fields held before.
\<close>

theorem login_success_resets:
  assumes "login chk e rq b = (rs, b')" "rs_success rs"
  shows "\<exists>un u. json_username rq = Some un \<and>
           find_user (test_users b) (login_name un) = Some u \<and>
           test_users b' = reset_failed_login (test_users b) (u_id u) (e_now e) \<and>
           find_user (test_users b') (login_name un) =
             Some (u\<lparr>failed_login_attempts := 0, last_login_attempt := Some (e_now e),
                     is_locked := False\<rparr>) \<and>
           (\<forall>row\<in>set (test_users b').
              u_id row = u_id u \<longrightarrow> failed_login_attempts row = 0 \<and> \<not> is_locked row)"
proof -
  from login_effect[OF assms(1)] assms(2) obtain un u where
    un: "json_username rq = Some un"
    and u: "find_user (test_users b) (login_name un) = Some u"
    and upd: "test_users b' = reset_failed_login (test_users b) (u_id u) (e_now e)"
    by auto
  have "find_user (test_users b') (login_name un) =
      Some (u\<lparr>failed_login_attempts := 0, last_login_attempt := Some (e_now e), is_locked := False\<rparr>)"
    unfolding upd using u by (rule find_user_reset_failed_login)
  moreover have "\<forall>row\<in>set (test_users b').
      u_id row = u_id u \<longrightarrow> failed_login_attempts row = 0 \<and> \<not> is_locked row"
    unfolding upd using reset_failed_login_rows by blast
  ultimately show ?thesis using un u upd by blast
qed

theorem login_success_resets_witness:
  "rs_success (fst (login check_plain env0 (request_of ''alice'' ''secret'' None None)
                      (backend_of [alice\<lparr>failed_login_attempts := 2\<rparr>] Map.empty))) \<and>
   (\<exists>u. find_user (test_users (snd (login check_plain env0
                     (request_of ''alice'' ''secret'' None None)
                     (backend_of [alice\<lparr>failed_login_attempts := 2\<rparr>] Map.empty))))
            (login_name ''alice'') = Some u \<and>
        failed_login_attempts u = 0 \<and> \<not> is_locked u)"
proof -
  let ?l = "login check_plain env0 (request_of ''alice'' ''secret'' None None)
              (backend_of [alice\<lparr>failed_login_attempts := 2\<rparr>] Map.empty)"
  have ok: "rs_success (fst ?l)"
    by (simp add: login_eval login_success_def SESSION_TIMEOUT_def)
  have l: "?l = (fst ?l, snd ?l)" by simp
  from login_success_resets[OF l ok] obtain un u where
    "json_username (request_of ''alice'' ''secret'' None None) = Some un"
    "find_user (test_users (snd ?l)) (login_name un) =
       Some (u\<lparr>failed_login_attempts := 0, last_login_attempt := Some (e_now env0),
               is_locked := False\<rparr>)"
    by blast
  then have "find_user (test_users (snd ?l)) (login_name ''alice'') =
       Some (u\<lparr>failed_login_attempts := 0, last_login_attempt := Some (e_now env0),
               is_locked := False\<rparr>)"
    by (simp add: request_of_def)
  with ok show ?thesis by simp
qed

text \<open>
  Claim C10. A login that is rejected at the CAPTCHA gate, with \<^verbatim>\<open>CAPTCHA_REQUIRED\<close> (id
  or answer missing) or \<^verbatim>\<open>INVALID_CAPTCHA\<close> (wrong answer), leaves the table of accounts
  as it was: no counter is incremented, no lock flag touched. Among the rejected logins,
  the only ones that change the table are the failed password checks, which run the
  update of the counter.
\<close>

theorem captcha_rejection_keeps_accounts:
  assumes "login chk e rq b = (rs, b')"
  shows "(rs_error_code rs = Some ''CAPTCHA_REQUIRED'' \<or> rs_error_code rs = Some ''INVALID_CAPTCHA''
            \<longrightarrow> test_users b' = test_users b) \<and>
         (\<not> rs_success rs \<and> test_users b' \<noteq> test_users b \<longrightarrow>
            failed_password_response rs \<and>
            (\<exists>un pw u. json_username rq = Some un \<and> json_password rq = Some pw \<and>
               find_user (test_users b) (login_name un) = Some u \<and>
               \<not> chk (password_hash u) pw \<and>
               test_users b' = record_failed_login (test_users b) (u_id u) (e_now e)))"
  using login_effect[OF assms] by (auto simp: failed_password_response_def)

theorem captcha_rejection_keeps_accounts_witness:
  "rs_error_code (fst (login check_plain env0 (request_of ''alice'' ''guess'' None None)
                         (backend_of [alice\<lparr>failed_login_attempts := 3\<rparr>] Map.empty)))
     = Some ''CAPTCHA_REQUIRED'' \<and>
   rs_error_code (fst (login check_plain env0
                         (request_of ''alice'' ''guess'' (Some ''c-1'') (Some ''8''))
                         (backend_of [alice\<lparr>failed_login_attempts := 3\<rparr>] captcha_store)))
     = Some ''INVALID_CAPTCHA'' \<and>
   test_users (snd (login check_plain env0 (request_of ''alice'' ''guess'' None None)
                      (backend_of [alice\<lparr>failed_login_attempts := 3\<rparr>] Map.empty)))
     = [alice\<lparr>failed_login_attempts := 3\<rparr>] \<and>
   test_users (snd (login check_plain env0
                      (request_of ''alice'' ''guess'' (Some ''c-1'') (Some ''8''))
                      (backend_of [alice\<lparr>failed_login_attempts := 3\<rparr>] captcha_store)))
     = [alice\<lparr>failed_login_attempts := 3\<rparr>]"
proof -
  let ?b1 = "backend_of [alice\<lparr>failed_login_attempts := 3\<rparr>] Map.empty"
  let ?b2 = "backend_of [alice\<lparr>failed_login_attempts := 3\<rparr>] captcha_store"
  let ?l1 = "login check_plain env0 (request_of ''alice'' ''guess'' None None) ?b1"
  let ?l2 = "login check_plain env0 (request_of ''alice'' ''guess'' (Some ''c-1'') (Some ''8'')) ?b2"
  have c1: "rs_error_code (fst ?l1) = Some ''CAPTCHA_REQUIRED''"
    by (simp add: login_eval captcha_rejection_def generate_captcha_def)
  have c2: "rs_error_code (fst ?l2) = Some ''INVALID_CAPTCHA''"
    by (simp add: login_eval captcha_rejection_def generate_captcha_def)
  have l1: "?l1 = (fst ?l1, snd ?l1)" and l2: "?l2 = (fst ?l2, snd ?l2)" by simp_all
  from captcha_rejection_keeps_accounts[OF l1] c1
  have u1: "test_users (snd ?l1) = test_users ?b1" by simp
  from captcha_rejection_keeps_accounts[OF l2] c2
  have u2: "test_users (snd ?l2) = test_users ?b2" by simp
  from c1 c2 u1 u2 show ?thesis by (simp add: backend_of_def)
qed

section \<open>Rate limiter: calls that interleave\<close>

lemma call_step_twice:
  "call_step ident limit window now (fst (call_step ident limit window now Ready r))
       (snd (call_step ident limit window now Ready r)) =
     (case check_rate_limit r now ident limit window of
        Inl x \<Rightarrow> (Raised x, r)
      | Inr (b, r') \<Rightarrow> (Returned b, r'))"
  by (simp add: call_step_def check_rate_limit_def)

lemma run_serial_schedule:
  assumes "admit_seq r ident limit window ts = Inr (bs, r')"
  shows "run_schedule ident limit window (serial_schedule (length finished) ts)
           (finished @ replicate (length ts) Ready) r =
         (finished @ map Returned bs, r')"
  using assms
proof (induction ts arbitrary: r bs finished)
  case Nil
  then show ?case by simp
next
  case (Cons t ts)
  from Cons.prems obtain b r1 bs1 where
    first: "check_rate_limit r t ident limit window = Inr (b, r1)"
    and rest: "admit_seq r1 ident limit window ts = Inr (bs1, r')"
    and bs: "bs = b # bs1"
    by (auto split: sum.splits prod.splits)
  let ?cs = "finished @ replicate (length (t # ts)) Ready"
  have len: "length finished < length ?cs" by simp
  have at: "?cs ! length finished = Ready" by (simp add: nth_append)
  have s1: "call_step ident limit window t Ready r =
      (Read (redis_get r t (rate_key ident)), r)"
    by (simp add: call_step_def)
  let ?cs1 = "?cs[length finished := Read (redis_get r t (rate_key ident))]"
  have at1: "?cs1 ! length finished = Read (redis_get r t (rate_key ident))"
    by (simp add: nth_list_update)
  have s2: "call_step ident limit window t (Read (redis_get r t (rate_key ident))) r =
      (Returned b, r1)"
    using first by (simp add: call_step_def check_rate_limit_def)
  have upd: "?cs1[length finished := Returned b] =
      (finished @ [Returned b]) @ replicate (length ts) Ready"
    by (simp add: list_update_append)
  have ih: "run_schedule ident limit window (serial_schedule (length (finished @ [Returned b])) ts)
      ((finished @ [Returned b]) @ replicate (length ts) Ready) r1 =
      ((finished @ [Returned b]) @ map Returned bs1, r')"
    using rest by (rule Cons.IH)
  have "run_schedule ident limit window (serial_schedule (length finished) (t # ts)) ?cs r =
      run_schedule ident limit window (serial_schedule (Suc (length finished)) ts)
        (?cs1[length finished := Returned b]) r1"
    using len at s1 at1 s2 by simp
  also have "\<dots> = ((finished @ [Returned b]) @ map Returned bs1, r')"
    using ih by (simp only: upd) simp
  finally show ?case by (simp add: bs)
qed

lemma count_below:
  "length (filter (\<lambda>i. c + int i < limit) [0..<n]) = min (nat (limit - c)) n"
  by (induction n) auto

lemma admitted_Returned: "admitted (map Returned bs) = length (filter id bs)"
  by (induction bs) (simp_all add: admitted_def)

lemma admit_seq_fresh_count:
  assumes "1 \<le> limit" "1 \<le> window"
    and "window * 1000 + mstime t0 \<le> LLONG_MAX"
    and "min limit (1 + int (length ts)) \<le> LLONG_MAX"
    and "redis_get r t0 (rate_key ident) = None"
    and "\<forall>t\<in>set ts. t < t0 + seconds (nat window)"
  shows "\<exists>bs r'. admit_seq r ident limit window (t0 # ts) = Inr (bs, r') \<and>
            length (filter id bs) = min (nat limit) (Suc (length ts))"
proof -
  let ?e = "t0 + seconds (nat window)"
  let ?r1 = "r(rate_key ident \<mapsto> (Text (str_of_int 1), Some ?e))"
  have first: "check_rate_limit r t0 ident limit window = Inr (True, ?r1)"
    using assms(5,2,3) by (rule check_rate_limit_fresh)
  have r1: "?r1 (rate_key ident) = Some (Text (str_of_int 1), Some ?e)" by simp
  have low: "- LLONG_MAX - 1 \<le> 1" by (simp add: LLONG_MAX_def)
  have rest: "admit_seq ?r1 ident limit window ts =
      Inr (map (\<lambda>i. 1 + int i < limit) [0..<length ts],
           ?r1(rate_key ident \<mapsto> (Text (str_of_int (min limit (1 + int (length ts)))), Some ?e)))"
    using r1 assms(1,6) low assms(4) by (rule admit_seq_counting)
  have "length (filter id (map (\<lambda>i. 1 + int i < limit) [0..<length ts])) =
      min (nat (limit - 1)) (length ts)"
    using count_below[of 1 limit "length ts"] by (simp add: filter_map o_def)
  with assms(1) have "length (filter id (True # map (\<lambda>i. 1 + int i < limit) [0..<length ts])) =
      min (nat limit) (Suc (length ts))" by (simp add: min_def) linarith
  with first rest show ?thesis by simp
qed

text \<open>
  Claim C9, as amended. The comparison and the write are two store operations. When the
  calls of one window run one after another, \<open>min limit n\<close> of the \<open>n\<close> calls are admitted,
  so never more than \<open>limit\<close>. This holds for a limit and a window of at least 1 that the
  store accepts (the expiry, the window in milliseconds added to the store's clock, fits
  64 bits, and so does the final counter \<open>min limit n\<close>), with no live counter at the first
  call and every later call before the expiry the first one set. Nothing is promised for
  calls whose steps interleave.
\<close>

theorem serial_calls_within_limit:
  assumes "1 \<le> limit" "1 \<le> window"
    and "window * 1000 + mstime t0 \<le> LLONG_MAX"
    and "min limit (1 + int (length ts)) \<le> LLONG_MAX"
    and "redis_get r t0 (rate_key ident) = None"
    and "\<forall>t\<in>set ts. t < t0 + seconds (nat window)"
  shows "admitted (fst (run_schedule ident limit window (serial_schedule 0 (t0 # ts))
                          (replicate (Suc (length ts)) Ready) r))
           = min (nat limit) (Suc (length ts))"
proof -
  from admit_seq_fresh_count[OF assms] obtain bs r' where
    seq: "admit_seq r ident limit window (t0 # ts) = Inr (bs, r')"
    and n: "length (filter id bs) = min (nat limit) (Suc (length ts))" by blast
  from run_serial_schedule[OF seq, of "[]"]
  have "run_schedule ident limit window (serial_schedule 0 (t0 # ts))
          (replicate (Suc (length ts)) Ready) r = (map Returned bs, r')"
    by simp
  with n show ?thesis by (simp add: admitted_Returned)
qed

theorem serial_calls_within_limit_witness:
  "admitted (fst (run_schedule ''10.0.0.7:alice'' 2 300
                    (serial_schedule 0 [0, 1000000, 2000000]) [Ready, Ready, Ready] Map.empty))
     = 2"
proof -
  have "admitted (fst (run_schedule ''10.0.0.7:alice'' 2 300
                    (serial_schedule 0 (0 # [1000000, 2000000]))
                    (replicate (Suc (length [1000000, 2000000 :: nat])) Ready) Map.empty))
     = min (nat 2) (Suc (length [1000000, 2000000 :: nat]))"
    by (rule serial_calls_within_limit)
       (simp_all add: redis_get_def seconds_def mstime_def LLONG_MAX_def)
  then show ?thesis by (simp add: numeral_3_eq_3)
qed

text \<open>
  Claim C9 as stated fails: with limit 1, two calls that both read before either writes
  are both admitted.
\<close>

theorem interleaved_calls_exceed_limit:
  "admitted (fst (run_schedule ''10.0.0.7:alice'' 1 300 [(0, 0), (1, 0), (0, 1), (1, 2)]
                    [Ready, Ready] Map.empty)) = 2"
  by (simp add: call_step_def rate_limit_decide_def redis_get_def redis_setex_def admitted_def
      mstime_def LLONG_MAX_def)

end
